theory Spec2Isabelle
  imports Main
begin

section \<open>JavaScript strings and numbers used by the sources\<close>

text \<open>
  Strings are \<^typ>\<open>string\<close>. \<open>String.prototype.includes\<close> with a one-character
  argument is membership of that character; \<open>String.prototype.split\<close> with a
  one-character separator cuts at every occurrence and always returns at least one piece
  (\<open>"".split(":")\<close> is \<open>[""]\<close>).
\<close>

definition includes_char :: "string \<Rightarrow> char \<Rightarrow> bool" where
  "includes_char s c = (c \<in> set s)"

fun split_char :: "char \<Rightarrow> string \<Rightarrow> string list" where
  "split_char c [] = [[]]"
| "split_char c (x # xs) =
     (if x = c then [] # split_char c xs
      else (case split_char c xs of
              [] \<Rightarrow> [[x]]
            | p # ps \<Rightarrow> (x # p) # ps))"

text \<open>
  \<open>Number.prototype.toString\<close> and template-literal interpolation of a non-negative
  integer: its decimal digits, without leading zeros.
\<close>

definition digit_char :: "nat \<Rightarrow> char" where
  "digit_char d = ''0123456789'' ! (d mod 10)"

fun number_toString :: "nat \<Rightarrow> string" where
  "number_toString n =
     (if n < 10 then [digit_char n]
      else number_toString (n div 10) @ [digit_char (n mod 10)])"

declare number_toString.simps [simp del]

section \<open>Debug session resolver: remote address derivation\<close>

text \<open>
  What the sources throw: the runtime's \<open>TypeError\<close> on a property read or a method
  call on \<open>undefined\<close> or \<open>null\<close>, and the \<open>Error\<close>s of \<open>DeviceManager\<close>
  (``Device with address ... already exists'', ``Device with ID ... not found'',
  ``Failed to create Wendy CLI'') and of a failed external command or \<open>JSON.parse\<close>.
\<close>

datatype js_error =
    TypeError
  | DeviceExists string
  | DeviceNotFound string
  | CliMissing
  | ExecFailed
  | ParseFailed

text \<open>
  \<open>WendyDebugConfigurationProvider.ensureDebugPort(address, port)\<close>, the two-argument
  version used by \<open>selectCurrentDevice\<close>. Inside the \<open>if\<close> block
  \<^verbatim>\<open>const [host, port] = address.split(":")\<close> declares a block-scoped \<open>port\<close> that
  shadows the numeric parameter, so both the comparison \<open>port === port.toString()\<close> and
  the template \<open>`${host}:${port}`\<close> read the string piece. The destructuring yields
  \<open>undefined\<close> for a missing second piece, on which \<open>.toString()\<close> throws.
\<close>

definition string_toString :: "string \<Rightarrow> string" where
  "string_toString s = s"

definition ensureDebugPort :: "string \<Rightarrow> nat \<Rightarrow> js_error + string" where
  "ensureDebugPort address port =
     (if includes_char address CHR '':'' then
        (case split_char CHR '':'' address of
           host # port' # _ \<Rightarrow>
             if port' = string_toString port' then Inr address
             else Inr (host @ '':'' @ port')
         | _ \<Rightarrow> Inl TypeError)
      else Inr (address @ '':'' @ number_toString port))"

text \<open>
  The earlier one-argument \<open>ensureDebugPort(address)\<close> of the same provider, which
  compares with and appends the constant \<open>DEFAULT_DEBUG_PORT\<close>. A missing piece is
  \<open>undefined\<close>: it differs from every string and interpolates as \<open>undefined\<close>.
\<close>

definition DEFAULT_DEBUG_PORT :: nat where
  "DEFAULT_DEBUG_PORT = 4242"

definition ensureDebugPort_default :: "string \<Rightarrow> string" where
  "ensureDebugPort_default address =
     (if includes_char address CHR '':'' then
        (case split_char CHR '':'' address of
           host # port' # _ \<Rightarrow>
             if port' = number_toString DEFAULT_DEBUG_PORT then address
             else host @ '':'' @ number_toString DEFAULT_DEBUG_PORT
         | [host] \<Rightarrow> host @ '':'' @ number_toString DEFAULT_DEBUG_PORT
         | [] \<Rightarrow> ''undefined:'' @ number_toString DEFAULT_DEBUG_PORT)
      else address @ '':'' @ number_toString DEFAULT_DEBUG_PORT)"

section \<open>Launch configuration synthesis\<close>

text \<open>
  Entries of a folder's \<open>launch.configurations\<close> are arbitrary JSON values (\<open>any[]\<close> in
  the source). Reading a property of \<open>undefined\<close> or \<open>null\<close> throws; of an object it
  gives the field or \<open>undefined\<close>; of any other value it gives \<open>undefined\<close>
  (\<open>None\<close> stands for \<open>undefined\<close>).
\<close>

datatype json =
    JNull
  | JBool bool
  | JNum int
  | JStr string
  | JArr "json list"
  | JObj "(string \<times> json) list"

definition get_property :: "json option \<Rightarrow> string \<Rightarrow> js_error + json option" where
  "get_property v name =
     (case v of
        None \<Rightarrow> Inl TypeError
      | Some JNull \<Rightarrow> Inl TypeError
      | Some (JObj fields) \<Rightarrow> Inr (map_of fields name)
      | Some _ \<Rightarrow> Inr None)"

text \<open>
  \<open>configurations.some(config => config.type === TYPE)\<close>: entries are visited in order
  and the visit stops at the first match; a \<open>null\<close> entry met before a match throws.
\<close>

fun some_has_type :: "string \<Rightarrow> json list \<Rightarrow> js_error + bool" where
  "some_has_type tag [] = Inr False"
| "some_has_type tag (config # rest) =
     (case get_property (Some config) ''type'' of
        Inl e \<Rightarrow> Inl e
      | Inr t \<Rightarrow> if t = Some (JStr tag) then Inr True else some_has_type tag rest)"

text \<open>
  The \<open>Swift.FolderContext\<close> handed to the synthesizer: its object identity (\<open>ref\<close>),
  \<open>folder.fsPath\<close>, the names of \<open>swiftPackage.executableProducts\<close>, and the posix folder
  string returned by \<open>getFolderAndNameSuffix\<close>, whose source (\<open>buildConfig\<close>) is not among
  the files; it is carried as a field.
\<close>

record folder_context =
  ref :: nat
  fsPath :: string
  executableProducts :: "string list"
  posixFolder :: string

text \<open>
  The external configuration store: \<open>launch.configurations\<close> per folder (\<open>None\<close> when
  the setting is absent), and the log of \<open>wsLaunchSection.update\<close> calls.
\<close>

record launch_store =
  configurations :: "string \<Rightarrow> json list option"
  updates :: "(string \<times> json list) list"

definition get_configurations :: "launch_store \<Rightarrow> string \<Rightarrow> json list" where
  "get_configurations st path = (case configurations st path of None \<Rightarrow> [] | Some cs \<Rightarrow> cs)"

definition update_configurations :: "launch_store \<Rightarrow> string \<Rightarrow> json list \<Rightarrow> launch_store" where
  "update_configurations st path cs =
     st\<lparr>configurations := (configurations st)(path \<mapsto> cs),
        updates := updates st @ [(path, cs)]\<rparr>"

text \<open>
  \<open>createExecutableConfigurations(context)\<close>: one descriptor per executable product.
  The kind tag \<open>EDGE_LAUNCH_CONFIG_TYPE\<close> is imported from a file that is not among the
  sources, so it is the parameter \<open>tag\<close> throughout.
\<close>

definition executable_configuration :: "string \<Rightarrow> string \<Rightarrow> string \<Rightarrow> json" where
  "executable_configuration tag folder product =
     JObj [(''type'', JStr tag),
           (''name'', JStr (''Debug '' @ product @ '' on EdgeOS'')),
           (''request'', JStr ''attach''),
           (''target'', JStr product),
           (''cwd'', JStr folder),
           (''preLaunchTask'', JStr (''edge: Run '' @ product))]"

definition createExecutableConfigurations :: "string \<Rightarrow> folder_context \<Rightarrow> json list" where
  "createExecutableConfigurations tag context =
     (if length (executableProducts context) = 0 then []
      else map (executable_configuration tag (posixFolder context)) (executableProducts context))"

text \<open>
  \<open>makeDebugConfigurations(context)\<close>: the returned boolean (or the thrown error) and the
  store afterwards. The awaited \<open>update\<close> of the store is taken to complete.
\<close>

definition makeDebugConfigurations ::
  "string \<Rightarrow> folder_context \<Rightarrow> launch_store \<Rightarrow> (js_error + bool) \<times> launch_store" where
  "makeDebugConfigurations tag context st =
     (let configs = get_configurations st (fsPath context) in
      case some_has_type tag configs of
        Inl e \<Rightarrow> (Inl e, st)
      | Inr True \<Rightarrow> (Inr False, st)
      | Inr False \<Rightarrow>
          (let edgeConfigurations = createExecutableConfigurations tag context in
           if length edgeConfigurations = 0 then (Inr False, st)
           else (let newConfigurations = edgeConfigurations @ configs in
                 (Inr True, update_configurations st (fsPath context) newConfigurations))))"

section \<open>Device manager\<close>

datatype connection_type = Ethernet | USB | LAN | Custom

record device =
  dev_id :: string
  dev_address :: string
  dev_name :: string
  agentVersion :: "string option"
  connectionType :: connection_type

text \<open>An entry \<open>{id, address}\<close> of the persisted setting \<open>wendyos.devices\<close>.\<close>

record device_entry =
  entry_id :: string
  entry_address :: string

record lan_device =
  lan_displayName :: string
  lan_id :: string
  lan_hostname :: string
  lan_port :: nat
  lan_agentVersion :: "string option"

text \<open>
  An invocation of the asynchronous \<open>checkForUpdates\<close> that got past its guard is
  suspended at one of its \<open>await\<close>s, has returned, or has thrown.
\<close>

datatype check_state =
    AwaitCli
  | AwaitVersion
  | AwaitPrompt
  | Returned
  | Thrown js_error

record update_check =
  check_device :: device
  check_state :: check_state

text \<open>
  The fields of \<open>DeviceManager\<close>, the two settings it reads and writes
  (\<open>wendyos.devices\<close>, \<open>wendyos.currentDevice\<close>; \<open>None\<close> is \<open>undefined\<close>), the
  suspended \<open>checkForUpdates\<close> invocations, and what the manager did to the outside:
  the devices whose remote version was queried, the devices the user was prompted
  for, the ids handed to \<open>updateAgent\<close>, and the events fired.
\<close>

record device_manager =
  config_devices :: "device_entry list option"
  config_currentDevice :: "string option"
  devices :: "device list"
  deviceIdsCheckedForUpdates :: "string list"
  currentDevice :: "device option"
  checks :: "update_check list"
  versionQueries :: "device list"
  updatePrompts :: "device list"
  agentUpdates :: "string list"
  currentDeviceChanged :: "string option list"
  devicesChanged :: nat

definition new_DeviceManager :: "device_entry list option \<Rightarrow> string option \<Rightarrow> device_manager" where
  "new_DeviceManager stored current =
     \<lparr>config_devices = stored, config_currentDevice = current, devices = [],
      deviceIdsCheckedForUpdates = [], currentDevice = None, checks = [],
      versionQueries = [], updatePrompts = [], agentUpdates = [],
      currentDeviceChanged = [], devicesChanged = 0\<rparr>"

text \<open>A JavaScript \<open>Set\<close> of strings, in insertion order.\<close>

definition set_has :: "string list \<Rightarrow> string \<Rightarrow> bool" where
  "set_has xs x = (x \<in> set xs)"

definition set_add :: "string list \<Rightarrow> string \<Rightarrow> string list" where
  "set_add xs x = (if x \<in> set xs then xs else xs @ [x])"

definition set_size :: "string list \<Rightarrow> nat" where
  "set_size xs = length xs"

text \<open>Truthiness of a \<open>string | undefined\<close>: \<open>undefined\<close> and the empty string are falsy.\<close>

definition truthy :: "string option \<Rightarrow> bool" where
  "truthy v = (case v of None \<Rightarrow> False | Some s \<Rightarrow> s \<noteq> [])"

definition stored_devices :: "device_manager \<Rightarrow> device_entry list" where
  "stored_devices dm = (case config_devices dm of None \<Rightarrow> [] | Some ds \<Rightarrow> ds)"

definition getCurrentDeviceId :: "device_manager \<Rightarrow> string option" where
  "getCurrentDeviceId dm = config_currentDevice dm"

definition getCurrentDevice :: "device_manager \<Rightarrow> device option \<times> device_manager" where
  "getCurrentDevice dm =
     (case getCurrentDeviceId dm of
        None \<Rightarrow> (None, dm)
      | Some currentId \<Rightarrow>
          if currentId = [] then (None, dm)
          else (let found = find (\<lambda>d. dev_id d = currentId) (devices dm)
                in (found, dm\<lparr>currentDevice := found\<rparr>)))"

text \<open>
  \<open>checkForUpdates(device)\<close> up to its first \<open>await\<close>: the guard, and the insertion
  into the set. An invocation that passes the guard is left suspended on
  \<open>WendyCLI.create()\<close>.
\<close>

definition checkForUpdates :: "device \<Rightarrow> device_manager \<Rightarrow> device_manager" where
  "checkForUpdates d dm =
     (if set_has (deviceIdsCheckedForUpdates dm) (dev_id d) then dm
      else dm\<lparr>deviceIdsCheckedForUpdates := set_add (deviceIdsCheckedForUpdates dm) (dev_id d),
              checks := checks dm @ [\<lparr>check_device = d, check_state = AwaitCli\<rparr>]\<rparr>)"

text \<open>
  The continuations of the \<open>k\<close>-th suspended invocation. When \<open>WendyCLI.create()\<close>
  resolves: without a CLI the invocation throws, with one it starts the remote version
  query (\<open>agent version --check-updates\<close>) and waits for its output.
\<close>

definition set_check :: "nat \<Rightarrow> check_state \<Rightarrow> device_manager \<Rightarrow> device_manager" where
  "set_check k s dm = dm\<lparr>checks := (checks dm)[k := (checks dm ! k)\<lparr>check_state := s\<rparr>]\<rparr>"

definition checkForUpdates_cli :: "nat \<Rightarrow> bool \<Rightarrow> device_manager \<Rightarrow> device_manager" where
  "checkForUpdates_cli k cli dm =
     (if k < length (checks dm) \<and> check_state (checks dm ! k) = AwaitCli then
        (if \<not> cli then set_check k (Thrown CliMissing) dm
         else (set_check k AwaitVersion dm)
                \<lparr>versionQueries := versionQueries dm @ [check_device (checks dm ! k)]\<rparr>)
      else dm)"

text \<open>
  When the query ends: a failed command or unparsable output throws; a truthy
  \<open>latestVersion\<close> shows the prompt and waits for the answer; otherwise the invocation
  returns.
\<close>

definition checkForUpdates_version ::
  "nat \<Rightarrow> js_error + string option \<Rightarrow> device_manager \<Rightarrow> device_manager" where
  "checkForUpdates_version k output dm =
     (if k < length (checks dm) \<and> check_state (checks dm ! k) = AwaitVersion then
        (case output of
           Inl e \<Rightarrow> set_check k (Thrown e) dm
         | Inr latestVersion \<Rightarrow>
             if truthy latestVersion then
               (set_check k AwaitPrompt dm)
                 \<lparr>updatePrompts := updatePrompts dm @ [check_device (checks dm ! k)]\<rparr>
             else set_check k Returned dm)
      else dm)"

text \<open>
  When the prompt is answered: \<open>Update\<close> hands the device id to \<open>updateAgent\<close>
  (recorded, not followed further); anything else returns.
\<close>

definition checkForUpdates_prompt :: "nat \<Rightarrow> bool \<Rightarrow> device_manager \<Rightarrow> device_manager" where
  "checkForUpdates_prompt k confirmed dm =
     (if k < length (checks dm) \<and> check_state (checks dm ! k) = AwaitPrompt then
        (if confirmed then
           (set_check k Returned dm)
             \<lparr>agentUpdates := agentUpdates dm @ [dev_id (check_device (checks dm ! k))]\<rparr>
         else set_check k Returned dm)
      else dm)"

text \<open>
  \<open>setCurrentDevice(deviceId)\<close>, with the awaited update of the setting taken to
  complete: the thrown error, if any, and the manager afterwards. The call of
  \<open>checkForUpdates\<close> is not awaited.
\<close>

definition write_currentDevice ::
  "string option \<Rightarrow> device_manager \<Rightarrow> js_error option \<times> device_manager" where
  "write_currentDevice deviceId dm =
     (None, dm\<lparr>config_currentDevice := deviceId,
               currentDeviceChanged := currentDeviceChanged dm @ [deviceId],
               devicesChanged := devicesChanged dm + 1\<rparr>)"

definition setCurrentDevice ::
  "string option \<Rightarrow> device_manager \<Rightarrow> js_error option \<times> device_manager" where
  "setCurrentDevice deviceId dm =
     (case deviceId of
        None \<Rightarrow> write_currentDevice None dm
      | Some i \<Rightarrow>
          if \<not> truthy (Some i) then write_currentDevice (Some i) dm
          else (case find (\<lambda>d. dev_id d = i) (devices dm) of
                  None \<Rightarrow> (Some (DeviceNotFound i), dm)
                | Some d \<Rightarrow>
                    write_currentDevice (Some i)
                      (checkForUpdates d (dm\<lparr>currentDevice := Some d\<rparr>))))"

text \<open>
  \<open>addDevice(address)\<close>; \<open>newId\<close> is the value of \<open>uuidv7()\<close>. The entry is appended
  and the setting written before the length test, so an error thrown by
  \<open>setCurrentDevice\<close> leaves the new entry stored.
\<close>

definition addDevice ::
  "string \<Rightarrow> string \<Rightarrow> device_manager \<Rightarrow> (js_error + device) \<times> device_manager" where
  "addDevice address newId dm =
     (let stored = stored_devices dm in
      if list_ex (\<lambda>d. entry_address d = address) stored then (Inl (DeviceExists address), dm)
      else (let newDevice = \<lparr>entry_id = newId, entry_address = address\<rparr>;
                stored' = stored @ [newDevice];
                dm1 = dm\<lparr>config_devices := Some stored'\<rparr>;
                result = \<lparr>dev_id = newId, dev_address = address, dev_name = ''Wendy Agent'',
                          agentVersion = None, connectionType = Custom\<rparr>
            in if length stored' = 1 then
                 (case setCurrentDevice (Some newId) dm1 of
                    (Some e, dm2) \<Rightarrow> (Inl e, dm2)
                  | (None, dm2) \<Rightarrow> (Inr result, dm2))
               else (Inr result, dm1\<lparr>devicesChanged := devicesChanged dm1 + 1\<rparr>)))"

text \<open>\<open>deleteDevice(deviceId)\<close>.\<close>

definition deleteDevice ::
  "string \<Rightarrow> device_manager \<Rightarrow> js_error option \<times> device_manager" where
  "deleteDevice deviceId dm =
     (let stored = stored_devices dm;
          updatedDevices = filter (\<lambda>d. entry_id d \<noteq> deviceId) stored
      in if length updatedDevices = length stored then (Some (DeviceNotFound deviceId), dm)
         else (let dm1 = dm\<lparr>config_devices := Some updatedDevices\<rparr> in
               if getCurrentDeviceId dm1 = Some deviceId then
                 (case updatedDevices of
                    first # _ \<Rightarrow> setCurrentDevice (Some (entry_id first)) dm1
                  | [] \<Rightarrow> setCurrentDevice None dm1)
               else (None, dm1\<lparr>devicesChanged := devicesChanged dm1 + 1\<rparr>)))"

text \<open>
  \<open>getDevices()\<close>, run without interruption: the outcome of the discovery is \<open>NoCli\<close>
  (\<open>WendyCLI.create()\<close> gave nothing), \<open>DiscoverFailed\<close> (the command or the parse
  threw) or the LAN devices found.
\<close>

datatype discovery = NoCli | DiscoverFailed | Discovered "lan_device list"

definition manual_device :: "device_entry \<Rightarrow> device" where
  "manual_device d =
     \<lparr>dev_id = entry_id d, dev_address = entry_address d, dev_name = entry_address d,
      agentVersion = None, connectionType = Custom\<rparr>"

definition found_device :: "lan_device \<Rightarrow> device" where
  "found_device l =
     \<lparr>dev_id = lan_id l, dev_address = lan_hostname l, dev_name = lan_displayName l,
      agentVersion = lan_agentVersion l, connectionType = LAN\<rparr>"

definition refresh_devices :: "device list \<Rightarrow> device_manager \<Rightarrow> device_manager" where
  "refresh_devices ds dm =
     (case getCurrentDevice (dm\<lparr>devices := ds\<rparr>) of
        (None, dm1) \<Rightarrow> dm1
      | (Some d, dm1) \<Rightarrow> checkForUpdates d dm1)"

definition getDevices :: "discovery \<Rightarrow> device_manager \<Rightarrow> device list \<times> device_manager" where
  "getDevices outcome dm =
     (let manuallyAddedDevices = map manual_device (stored_devices dm) in
      case outcome of
        NoCli \<Rightarrow> (manuallyAddedDevices, dm)
      | Discovered lanDevices \<Rightarrow>
          (let ds = map found_device lanDevices @ manuallyAddedDevices
           in (ds, refresh_devices ds dm))
      | DiscoverFailed \<Rightarrow> (manuallyAddedDevices, refresh_devices manuallyAddedDevices dm))"

text \<open>
  Everything that can happen to a manager during the life of the process: calls of its
  operations and resumptions of suspended update checks, in any order.
\<close>

datatype dm_event =
    GetDevices discovery
  | SetCurrentDevice "string option"
  | AddDevice string string
  | DeleteDevice string
  | CheckForUpdates device
  | CliCreated nat bool
  | VersionOutput nat "js_error + string option"
  | PromptAnswered nat bool

fun dm_step :: "dm_event \<Rightarrow> device_manager \<Rightarrow> device_manager" where
  "dm_step (GetDevices outcome) dm = snd (getDevices outcome dm)"
| "dm_step (SetCurrentDevice deviceId) dm = snd (setCurrentDevice deviceId dm)"
| "dm_step (AddDevice address newId) dm = snd (addDevice address newId dm)"
| "dm_step (DeleteDevice deviceId) dm = snd (deleteDevice deviceId dm)"
| "dm_step (CheckForUpdates d) dm = checkForUpdates d dm"
| "dm_step (CliCreated k cli) dm = checkForUpdates_cli k cli dm"
| "dm_step (VersionOutput k output) dm = checkForUpdates_version k output dm"
| "dm_step (PromptAnswered k confirmed) dm = checkForUpdates_prompt k confirmed dm"

definition dm_run :: "dm_event list \<Rightarrow> device_manager \<Rightarrow> device_manager" where
  "dm_run events dm = fold dm_step events dm"

definition queries_for :: "string \<Rightarrow> device_manager \<Rightarrow> nat" where
  "queries_for i dm = length (filter (\<lambda>d. dev_id d = i) (versionQueries dm))"

definition prompts_for :: "string \<Rightarrow> device_manager \<Rightarrow> nat" where
  "prompts_for i dm = length (filter (\<lambda>d. dev_id d = i) (updatePrompts dm))"

section \<open>Workspace context: the folders-ready barrier\<close>

datatype folder_operation =
    Add
  | Remove
  | Focus
  | Unfocus
  | PackageUpdated
  | ResolvedUpdated
  | WorkspaceStateUpdated
  | PackageViewUpdated
  | PluginsUpdated

record folder_event =
  operation :: folder_operation
  folder :: "folder_context option"

text \<open>
  The fields of \<open>EdgeWorkspaceContext\<close>. An \<open>EdgeFolderContext\<close> only wraps its
  \<open>Swift.FolderContext\<close>, so \<open>folders\<close> lists the wrapped contexts. The timeout handle
  is split in two: \<open>timeoutHandle\<close> says that \<open>_initialFolderSetupTimeout\<close> is not
  \<open>null\<close>, \<open>timerArmed\<close> that the host will still run the callback. The last four
  fields count what the context did: \<open>_onFoldersReady.fire()\<close>, runs of the body of
  \<open>generateLaunchConfigurations\<close> past its guard, \<open>_onDidChangePackage.fire\<close>, and
  refresh prompts.
\<close>

record workspace_context =
  folders :: "folder_context list"
  hasEdgeFolder :: bool
  initialFoldersReady :: bool
  timeoutHandle :: bool
  timerArmed :: bool
  initialFolderPaths :: "string list"
  processedFolderPaths :: "string list"
  generatedConfigurations :: bool
  foldersReadyFired :: nat
  generationRuns :: nat
  packageChanges :: "folder_context list"
  refreshPrompts :: nat

text \<open>
  The constructor: the snapshot of \<open>vscode.workspace.workspaceFolders\<close> (\<open>None\<close> when
  there is no workspace), the 5 second timer, and the subscription of
  \<open>generateLaunchConfigurations\<close> to the folders-ready event.
\<close>

definition new_EdgeWorkspaceContext :: "string list option \<Rightarrow> workspace_context" where
  "new_EdgeWorkspaceContext workspaceFolders =
     \<lparr>folders = [], hasEdgeFolder = False, initialFoldersReady = False,
      timeoutHandle = True, timerArmed = True,
      initialFolderPaths =
        (case workspaceFolders of None \<Rightarrow> [] | Some fs \<Rightarrow> fold (\<lambda>f acc. set_add acc f) fs []),
      processedFolderPaths = [], generatedConfigurations = False,
      foldersReadyFired = 0, generationRuns = 0, packageChanges = [], refreshPrompts = 0\<rparr>"

text \<open>
  \<open>generateLaunchConfigurations()\<close> up to its first \<open>await\<close>: the one-shot guard. The
  body behind the guard reads \<open>folders\<close> and writes the configuration store; it touches
  none of the fields of the barrier, and is counted here, not run.
\<close>

definition generateLaunchConfigurations :: "workspace_context \<Rightarrow> workspace_context" where
  "generateLaunchConfigurations ws =
     (if generatedConfigurations ws then ws
      else ws\<lparr>generatedConfigurations := True, generationRuns := generationRuns ws + 1\<rparr>)"

definition markFoldersReady :: "workspace_context \<Rightarrow> workspace_context" where
  "markFoldersReady ws =
     (if \<not> initialFoldersReady ws then
        (let ws1 = ws\<lparr>initialFoldersReady := True\<rparr>;
             ws2 = generateLaunchConfigurations (ws1\<lparr>foldersReadyFired := foldersReadyFired ws1 + 1\<rparr>)
         in if timeoutHandle ws2 then ws2\<lparr>timerArmed := False, timeoutHandle := False\<rparr>
            else ws2)
      else ws)"

definition checkAllFoldersProcessed :: "workspace_context \<Rightarrow> workspace_context" where
  "checkAllFoldersProcessed ws =
     (if set_size (initialFolderPaths ws) = 0 \<or>
         set_size (initialFolderPaths ws) = set_size (processedFolderPaths ws)
      then markFoldersReady ws
      else ws)"

definition getOrCreateFolderContext ::
  "folder_context \<Rightarrow> workspace_context \<Rightarrow> folder_context \<times> workspace_context" where
  "getOrCreateFolderContext f ws =
     (case find (\<lambda>g. ref g = ref f) (folders ws) of
        Some existingFolder \<Rightarrow> (existingFolder, ws\<lparr>hasEdgeFolder := True\<rparr>)
      | None \<Rightarrow>
          (let ws1 = ws\<lparr>folders := folders ws @ [f],
                         processedFolderPaths := set_add (processedFolderPaths ws) (fsPath f)\<rparr>
           in (f, if set_has (initialFolderPaths ws1) (fsPath f)
                  then checkAllFoldersProcessed ws1 else ws1)))"

fun remove_first :: "('a \<Rightarrow> bool) \<Rightarrow> 'a list \<Rightarrow> 'a list" where
  "remove_first P [] = []"
| "remove_first P (x # xs) = (if P x then xs else x # remove_first P xs)"

definition handleFolderEvent :: "folder_event \<Rightarrow> workspace_context \<Rightarrow> workspace_context" where
  "handleFolderEvent ev ws =
     (case folder ev of
        None \<Rightarrow> ws
      | Some f \<Rightarrow>
          if operation ev = Add \<or> operation ev = PackageUpdated then
            (case getOrCreateFolderContext f ws of
               (edgeFolder, ws1) \<Rightarrow> ws1\<lparr>packageChanges := packageChanges ws1 @ [edgeFolder]\<rparr>)
          else if operation ev = Remove then
            (case find (\<lambda>g. ref g = ref f) (folders ws) of
               Some edgeFolder \<Rightarrow>
                 if \<not> hasEdgeFolder ws then
                   ws\<lparr>folders := remove_first (\<lambda>g. ref g = ref f) (folders ws),
                      refreshPrompts := refreshPrompts ws + 1\<rparr>
                 else ws
             | None \<Rightarrow> ws)
          else ws)"

text \<open>
  What the context reacts to: a folder event of the Swift extension, the expiry of the
  fallback timer (the host runs the callback of a timer at most once, and never after
  \<open>clearTimeout\<close>), and a direct call of the public \<open>generateLaunchConfigurations\<close>.
\<close>

datatype ws_event =
    FolderEvent folder_event
  | TimerExpired
  | GenerateCall

fun ws_step :: "ws_event \<Rightarrow> workspace_context \<Rightarrow> workspace_context" where
  "ws_step (FolderEvent ev) ws = handleFolderEvent ev ws"
| "ws_step TimerExpired ws =
     (if timerArmed ws then markFoldersReady (ws\<lparr>timerArmed := False\<rparr>) else ws)"
| "ws_step GenerateCall ws = generateLaunchConfigurations ws"

definition ws_run :: "ws_event list \<Rightarrow> workspace_context \<Rightarrow> workspace_context" where
  "ws_run events ws = fold ws_step events ws"

definition add_event :: "nat \<Rightarrow> string \<Rightarrow> ws_event" where
  "add_event r path =
     FolderEvent \<lparr>operation = Add,
                  folder = Some \<lparr>ref = r, fsPath = path, executableProducts = [],
                                 posixFolder = path\<rparr>\<rparr>"

section \<open>Debug session resolver: routing on the project file\<close>

text \<open>
  The outcome of reading and parsing \<open>wendy.json\<close> inside the \<open>try\<close> block: a failure
  (with the text \<open>getErrorDescription\<close> gives for it), or the parsed value.
\<close>

datatype read_outcome = ReadFailed string | Parsed json

text \<open>
  Where \<open>resolveDebugConfigurationWithSubstitutedVariables\<close> ends: \<open>null\<close> for a missing
  folder, or the call of the Python or the Swift resolver. The same shape serves
  \<open>provideDebugConfigurations\<close>, which returns \<open>[]\<close> for a missing folder.
\<close>

datatype route = NoFolder | PythonBranch | SwiftBranch

definition load_project_file :: "string \<Rightarrow> read_outcome \<Rightarrow> string list \<times> json option" where
  "load_project_file path outcome =
     (case outcome of
        ReadFailed description \<Rightarrow>
          ([''Could not read or parse wendy.json at '' @ path @ '': '' @ description], None)
      | Parsed v \<Rightarrow> ([], Some v))"

definition route_by_language :: "json option \<Rightarrow> js_error + route" where
  "route_by_language edgeConfig =
     (case get_property edgeConfig ''language'' of
        Inl e \<Rightarrow> Inl e
      | Inr language \<Rightarrow>
          if language = Some (JStr ''python'') then Inr PythonBranch else Inr SwiftBranch)"

text \<open>
  Both functions take the path of \<open>wendy.json\<close> in the folder (\<open>None\<close> for no folder) and
  give the lines appended to the output channel and the route taken or the error thrown.
\<close>

definition resolveDebugConfigurationWithSubstitutedVariables ::
  "string option \<Rightarrow> read_outcome \<Rightarrow> string list \<times> (js_error + route)" where
  "resolveDebugConfigurationWithSubstitutedVariables folderPath outcome =
     (case folderPath of
        None \<Rightarrow> ([], Inr NoFolder)
      | Some edgeConfigPath \<Rightarrow>
          (case load_project_file edgeConfigPath outcome of
             (lines, edgeConfig) \<Rightarrow> (lines, route_by_language edgeConfig)))"

definition provideDebugConfigurations ::
  "string option \<Rightarrow> read_outcome \<Rightarrow> string list \<times> (js_error + route)" where
  "provideDebugConfigurations folderPath outcome =
     (case folderPath of
        None \<Rightarrow> ([''Providing Wendy debug configurations...'', ''No workspace folder found.''],
                 Inr NoFolder)
      | Some edgeJson \<Rightarrow>
          (case load_project_file edgeJson outcome of
             (lines, edgeConfig) \<Rightarrow>
               (''Providing Wendy debug configurations...'' # lines,
                route_by_language edgeConfig)))"

section \<open>Observations on the workspace context\<close>

text \<open>The context after the constructor and a sequence of events.\<close>

definition workspace_after :: "string list option \<Rightarrow> ws_event list \<Rightarrow> workspace_context" where
  "workspace_after initial events = ws_run events (new_EdgeWorkspaceContext initial)"

definition is_folder_event :: "ws_event \<Rightarrow> bool" where
  "is_folder_event e = (case e of FolderEvent _ \<Rightarrow> True | _ \<Rightarrow> False)"

text \<open>
  The invariant of the barrier: the folders-ready event has fired once when the flag is
  set and not at all before; the body of the generation pass has run once when its
  flag is set and not at all before; once ready, the pass has started and the timer is
  cancelled and its handle cleared; before that the timer is still pending.
\<close>

definition barrier_inv :: "workspace_context \<Rightarrow> bool" where
  "barrier_inv ws =
     (foldersReadyFired ws = (if initialFoldersReady ws then 1 else 0) \<and>
      generationRuns ws = (if generatedConfigurations ws then 1 else 0) \<and>
      (if initialFoldersReady ws
       then generatedConfigurations ws \<and> \<not> timerArmed ws \<and> \<not> timeoutHandle ws
       else timerArmed ws \<and> timeoutHandle ws))"

section \<open>Observations on the device manager\<close>

text \<open>The manager after its construction and a sequence of events.\<close>

definition manager_after ::
  "device_entry list option \<Rightarrow> string option \<Rightarrow> dm_event list \<Rightarrow> device_manager" where
  "manager_after stored current events = dm_run events (new_DeviceManager stored current)"

text \<open>
  Suspended update checks of a device id: those still waiting for the CLI (past the
  guard, query not yet sent) and those waiting for the answer to their query.
\<close>

definition waits :: "string \<Rightarrow> update_check \<Rightarrow> bool" where
  "waits i t = (dev_id (check_device t) = i \<and> check_state t = AwaitCli)"

definition asks :: "string \<Rightarrow> update_check \<Rightarrow> bool" where
  "asks i t = (dev_id (check_device t) = i \<and> check_state t = AwaitVersion)"

definition waiting_for :: "string \<Rightarrow> device_manager \<Rightarrow> nat" where
  "waiting_for i dm = length (filter (waits i) (checks dm))"

definition asking_for :: "string \<Rightarrow> device_manager \<Rightarrow> nat" where
  "asking_for i dm = length (filter (asks i) (checks dm))"

text \<open>
  The invariant behind the once-only update check, for every device id: queries sent
  and invocations about to send one are at most one in all; every prompt shown and
  every invocation waiting for an answer has its query; and an id that is not in the
  set has neither a query nor an invocation about to send one.
\<close>

definition check_inv :: "device_manager \<Rightarrow> bool" where
  "check_inv dm =
     (\<forall>i. queries_for i dm + waiting_for i dm \<le> 1 \<and>
          prompts_for i dm + asking_for i dm \<le> queries_for i dm \<and>
          (i \<in> set (deviceIdsCheckedForUpdates dm) \<or> queries_for i dm + waiting_for i dm = 0))"

section \<open>Concrete folders, stores and registries\<close>

text \<open>Inputs at which the theorems below are instantiated.\<close>

definition demo_context :: folder_context where
  "demo_context =
     \<lparr>ref = 1, fsPath = ''/work/app'', executableProducts = [''app'', ''tool''],
      posixFolder = ''/work/app''\<rparr>"

definition bare_context :: folder_context where
  "bare_context =
     \<lparr>ref = 2, fsPath = ''/work/lib'', executableProducts = [],
      posixFolder = ''/work/lib''\<rparr>"

definition empty_store :: launch_store where
  "empty_store = \<lparr>configurations = (\<lambda>_. None), updates = []\<rparr>"

definition demo_store :: launch_store where
  "demo_store =
     \<lparr>configurations =
        (\<lambda>_. None)(''/work/app'' \<mapsto> [JObj [(''type'', JStr ''lldb''), (''name'', JStr ''Run'')]]),
      updates = []\<rparr>"

definition configured_store :: launch_store where
  "configured_store =
     \<lparr>configurations = (\<lambda>_. None)(''/work/app'' \<mapsto> [JObj [(''type'', JStr ''edge'')]]),
      updates = []\<rparr>"

definition fresh_manager :: device_manager where
  "fresh_manager = snd (getDevices DiscoverFailed (new_DeviceManager None None))"

definition kitchen :: device_entry where
  "kitchen = \<lparr>entry_id = ''id-kitchen'', entry_address = ''kitchen.local''\<rparr>"

definition garage :: device_entry where
  "garage = \<lparr>entry_id = ''id-garage'', entry_address = ''garage.local:50051''\<rparr>"

definition two_device_manager :: device_manager where
  "two_device_manager =
     snd (getDevices DiscoverFailed
            (new_DeviceManager (Some [kitchen, garage]) (Some ''id-kitchen'')))"

definition one_device_manager :: device_manager where
  "one_device_manager =
     snd (getDevices DiscoverFailed (new_DeviceManager (Some [garage]) (Some ''id-garage'')))"

definition unlisted_manager :: device_manager where
  "unlisted_manager =
     snd (getDevices NoCli (new_DeviceManager (Some [kitchen, garage]) (Some ''id-kitchen'')))"

definition porch :: device where
  "porch = \<lparr>dev_id = ''id-porch'', dev_address = ''porch.local'', dev_name = ''Porch'',
            agentVersion = Some ''1.0.0'', connectionType = LAN\<rparr>"

section \<open>Properties of the remote address derivation\<close>

lemma split_char_nonempty: "split_char c s \<noteq> []"
  by (induction s) (auto split: list.splits)

lemma split_char_two_pieces: "c \<in> set s \<Longrightarrow> 2 \<le> length (split_char c s)"
proof (induction s)
  case Nil
  then show ?case by simp
next
  case (Cons x xs)
  show ?case
  proof (cases "x = c")
    case True
    have "1 \<le> length (split_char c xs)"
      using split_char_nonempty [of c xs] by (cases "split_char c xs") auto
    with True show ?thesis by simp
  next
    case False
    with Cons show ?thesis by (auto split: list.splits)
  qed
qed

lemma number_toString_4242: "number_toString 4242 = ''4242''"
  by (simp add: number_toString.simps digit_char_def)

lemma ensureDebugPort_no_colon:
  "CHR '':'' \<notin> set address \<Longrightarrow>
     ensureDebugPort address port = Inr (address @ '':'' @ number_toString port)"
  by (simp add: ensureDebugPort_def includes_char_def)

lemma ensureDebugPort_colon_unchanged:
  assumes "CHR '':'' \<in> set address"
  shows "ensureDebugPort address port = Inr address"
proof -
  from split_char_two_pieces [OF assms]
  obtain h p rest where "split_char CHR '':'' address = h # p # rest"
    by (cases "split_char CHR '':'' address"; cases "tl (split_char CHR '':'' address)") auto
  with assms show ?thesis
    by (simp add: ensureDebugPort_def includes_char_def string_toString_def)
qed

text \<open>
  C3: the address without a port gets the required port appended, as specified; the
  address \<open>10.0.0.5:9999\<close> with required port 4242 is returned as it is by the
  two-argument function, where the specification says \<open>10.0.0.5:4242\<close>. The
  one-argument version does rewrite the port.
\<close>

theorem ensureDebugPort_keeps_existing_port:
  "ensureDebugPort ''10.0.0.5'' 4242 = Inr ''10.0.0.5:4242'' \<and>
   ensureDebugPort ''10.0.0.5:9999'' 4242 = Inr ''10.0.0.5:9999'' \<and>
   ensureDebugPort ''10.0.0.5:9999'' 4242 \<noteq> Inr ''10.0.0.5:4242'' \<and>
   ensureDebugPort_default ''10.0.0.5:9999'' = ''10.0.0.5:4242''"
  by (simp add: ensureDebugPort_def ensureDebugPort_default_def includes_char_def
      string_toString_def DEFAULT_DEBUG_PORT_def number_toString_4242)

section \<open>Properties of the launch configuration synthesis\<close>

lemma some_has_type_tagged_first:
  "some_has_type tag (executable_configuration tag f p # rest) = Inr True"
  by (simp add: executable_configuration_def get_property_def)

lemma some_has_type_created:
  "createExecutableConfigurations tag ctx \<noteq> [] \<Longrightarrow>
   some_has_type tag (createExecutableConfigurations tag ctx @ cs) = Inr True"
  by (cases "executableProducts ctx")
     (simp_all add: createExecutableConfigurations_def some_has_type_tagged_first
        del: some_has_type.simps)

lemma get_update_configurations:
  "get_configurations (update_configurations st p cs) q =
     (if q = p then cs else get_configurations st q)"
  by (simp add: get_configurations_def update_configurations_def)

lemma updates_update_configurations:
  "updates (update_configurations st p cs) = updates st @ [(p, cs)]"
  by (simp add: update_configurations_def)

lemma configurations_update_configurations:
  "configurations (update_configurations st p cs) q =
     (if q = p then Some cs else configurations st q)"
  by (simp add: update_configurations_def)

lemma makeDebugConfigurations_cases:
  "makeDebugConfigurations tag ctx st =
     (case some_has_type tag (get_configurations st (fsPath ctx)) of
        Inl e \<Rightarrow> (Inl e, st)
      | Inr True \<Rightarrow> (Inr False, st)
      | Inr False \<Rightarrow>
          if createExecutableConfigurations tag ctx = [] then (Inr False, st)
          else (Inr True, update_configurations st (fsPath ctx)
                  (createExecutableConfigurations tag ctx @ get_configurations st (fsPath ctx))))"
  by (simp add: makeDebugConfigurations_def Let_def split: sum.splits bool.splits)

lemma makeDebugConfigurations_after_write:
  assumes "fst (makeDebugConfigurations tag ctx st) = Inr True"
  shows "some_has_type tag
           (get_configurations (snd (makeDebugConfigurations tag ctx st)) (fsPath ctx)) = Inr True"
  using assms
  by (auto simp: makeDebugConfigurations_cases get_update_configurations some_has_type_created
           split: sum.splits bool.splits if_splits)

lemma makeDebugConfigurations_again:
  "makeDebugConfigurations tag ctx (snd (makeDebugConfigurations tag ctx st)) =
     (if fst (makeDebugConfigurations tag ctx st) = Inr True then Inr False
      else fst (makeDebugConfigurations tag ctx st),
      snd (makeDebugConfigurations tag ctx st))"
proof (cases "fst (makeDebugConfigurations tag ctx st) = Inr True")
  case True
  from makeDebugConfigurations_after_write [OF True] True show ?thesis
    by (simp add: makeDebugConfigurations_cases [of tag ctx "snd (makeDebugConfigurations tag ctx st)"])
next
  case False
  then show ?thesis
    by (auto simp: makeDebugConfigurations_cases split: sum.splits bool.splits if_splits)
qed

lemma demo_first_call:
  "makeDebugConfigurations ''edge'' demo_context demo_store =
     (Inr True,
      update_configurations demo_store ''/work/app''
        [executable_configuration ''edge'' ''/work/app'' ''app'',
         executable_configuration ''edge'' ''/work/app'' ''tool'',
         JObj [(''type'', JStr ''lldb''), (''name'', JStr ''Run'')]])"
  by (simp add: makeDebugConfigurations_cases demo_context_def demo_store_def
      get_configurations_def get_property_def createExecutableConfigurations_def)

text \<open>
  C4: synthesis is idempotent on the stored descriptor lists. For every kind tag, folder
  context and store, a second call of \<open>makeDebugConfigurations\<close> leaves the store as the
  first call left it and never returns \<open>true\<close>; and when the first call wrote (returned
  \<open>true\<close>), the second finds a descriptor with the kind tag, returns \<open>false\<close>, makes no
  \<open>update\<close> call, and the stored list of the folder keeps its length.
\<close>

theorem makeDebugConfigurations_twice:
  "snd (makeDebugConfigurations tag ctx (snd (makeDebugConfigurations tag ctx st))) =
     snd (makeDebugConfigurations tag ctx st) \<and>
   fst (makeDebugConfigurations tag ctx (snd (makeDebugConfigurations tag ctx st))) \<noteq> Inr True \<and>
   (fst (makeDebugConfigurations tag ctx st) = Inr True \<longrightarrow>
      some_has_type tag
        (get_configurations (snd (makeDebugConfigurations tag ctx st)) (fsPath ctx)) = Inr True \<and>
      fst (makeDebugConfigurations tag ctx (snd (makeDebugConfigurations tag ctx st))) = Inr False \<and>
      updates (snd (makeDebugConfigurations tag ctx (snd (makeDebugConfigurations tag ctx st)))) =
        updates (snd (makeDebugConfigurations tag ctx st)) \<and>
      length (get_configurations
                (snd (makeDebugConfigurations tag ctx (snd (makeDebugConfigurations tag ctx st))))
                (fsPath ctx)) =
        length (get_configurations (snd (makeDebugConfigurations tag ctx st)) (fsPath ctx)))"
  by (simp add: makeDebugConfigurations_again makeDebugConfigurations_after_write)

theorem makeDebugConfigurations_twice_witness:
  "fst (makeDebugConfigurations ''edge'' demo_context demo_store) = Inr True \<and>
   fst (makeDebugConfigurations ''edge'' demo_context
          (snd (makeDebugConfigurations ''edge'' demo_context demo_store))) = Inr False \<and>
   length (get_configurations
             (snd (makeDebugConfigurations ''edge'' demo_context
                     (snd (makeDebugConfigurations ''edge'' demo_context demo_store))))
             (fsPath demo_context)) = 3"
proof -
  have first: "fst (makeDebugConfigurations ''edge'' demo_context demo_store) = Inr True"
    by (simp add: demo_first_call)
  have len: "length (get_configurations
               (snd (makeDebugConfigurations ''edge'' demo_context demo_store))
               (fsPath demo_context)) = 3"
    unfolding demo_first_call by (simp add: get_update_configurations demo_context_def)
  from makeDebugConfigurations_twice [of "''edge''" demo_context demo_store] first len
  show ?thesis by simp
qed

text \<open>
  C5: whenever \<open>makeDebugConfigurations\<close> writes (returns \<open>true\<close>), the list written for
  the folder is the new descriptors followed by the folder's previous list, unchanged
  and in order; exactly that one \<open>update\<close> call is made, and the lists of all other
  folders stay as they were. When it does not write, the store is unchanged. So no
  call removes or rewrites a descriptor that was there before.
\<close>

theorem makeDebugConfigurations_frame:
  "makeDebugConfigurations tag ctx st = (r, st') \<Longrightarrow>
     (if r = Inr True then
        createExecutableConfigurations tag ctx \<noteq> [] \<and>
        get_configurations st' (fsPath ctx) =
          createExecutableConfigurations tag ctx @ get_configurations st (fsPath ctx) \<and>
        updates st' =
          updates st @ [(fsPath ctx,
             createExecutableConfigurations tag ctx @ get_configurations st (fsPath ctx))] \<and>
        (\<forall>p. p \<noteq> fsPath ctx \<longrightarrow> configurations st' p = configurations st p)
      else st' = st)"
  by (auto simp: makeDebugConfigurations_cases get_update_configurations
        updates_update_configurations configurations_update_configurations
        split: sum.splits bool.splits if_splits)

theorem makeDebugConfigurations_frame_witness:
  "get_configurations (snd (makeDebugConfigurations ''edge'' demo_context demo_store)) ''/work/app'' =
     [executable_configuration ''edge'' ''/work/app'' ''app'',
      executable_configuration ''edge'' ''/work/app'' ''tool''] @
     [JObj [(''type'', JStr ''lldb''), (''name'', JStr ''Run'')]] \<and>
   configurations (snd (makeDebugConfigurations ''edge'' demo_context demo_store)) ''/other'' = None"
proof -
  have call: "makeDebugConfigurations ''edge'' demo_context demo_store =
      (Inr True, snd (makeDebugConfigurations ''edge'' demo_context demo_store))"
    by (simp add: demo_first_call)
  have created: "createExecutableConfigurations ''edge'' demo_context =
      [executable_configuration ''edge'' ''/work/app'' ''app'',
       executable_configuration ''edge'' ''/work/app'' ''tool'']"
    by (simp add: createExecutableConfigurations_def demo_context_def)
  have old: "get_configurations demo_store (fsPath demo_context) =
      [JObj [(''type'', JStr ''lldb''), (''name'', JStr ''Run'')]]"
    by (simp add: get_configurations_def demo_store_def demo_context_def)
  have other: "configurations demo_store ''/other'' = None"
    by (simp add: demo_store_def)
  have path: "fsPath demo_context = ''/work/app''"
    by (simp add: demo_context_def)
  from makeDebugConfigurations_frame [OF call] created old other path
  show ?thesis by simp
qed

text \<open>
  C10, as specified, fails: a folder with no executable product and a folder that already
  has a descriptor of the kind get the same result from \<open>makeDebugConfigurations\<close>, the
  boolean \<open>false\<close>.
\<close>

theorem zero_targets_result_not_distinct:
  "fst (makeDebugConfigurations ''edge'' bare_context empty_store) =
   fst (makeDebugConfigurations ''edge'' demo_context configured_store)"
  by (simp add: makeDebugConfigurations_cases bare_context_def empty_store_def
      demo_context_def configured_store_def get_configurations_def get_property_def
      createExecutableConfigurations_def)

text \<open>
  C10, amended: for every folder context with no executable product, synthesis creates
  no descriptor and leaves the store unchanged (no \<open>update\<close> call); when the folder's
  list has no descriptor of the kind it returns \<open>false\<close>, which is also what a folder
  that already has such a descriptor gets, again with the store unchanged.
\<close>

theorem zero_targets_no_op:
  assumes "executableProducts ctx = []"
  shows "createExecutableConfigurations tag ctx = [] \<and>
         snd (makeDebugConfigurations tag ctx st) = st \<and>
         (some_has_type tag (get_configurations st (fsPath ctx)) = Inr False \<longrightarrow>
            fst (makeDebugConfigurations tag ctx st) = Inr False) \<and>
         (some_has_type tag (get_configurations st2 (fsPath ctx2)) = Inr True \<longrightarrow>
            makeDebugConfigurations tag ctx2 st2 = (Inr False, st2))"
  using assms
  by (auto simp: makeDebugConfigurations_cases createExecutableConfigurations_def
        split: sum.splits bool.splits)

theorem zero_targets_no_op_witness:
  "makeDebugConfigurations ''edge'' bare_context empty_store = (Inr False, empty_store) \<and>
   makeDebugConfigurations ''edge'' demo_context configured_store = (Inr False, configured_store)"
proof -
  have a: "executableProducts bare_context = []"
    by (simp add: bare_context_def)
  have b: "some_has_type ''edge'' (get_configurations empty_store (fsPath bare_context)) = Inr False"
    by (simp add: get_configurations_def empty_store_def)
  have c: "some_has_type ''edge'' (get_configurations configured_store (fsPath demo_context)) = Inr True"
    by (simp add: get_configurations_def configured_store_def demo_context_def get_property_def)
  from zero_targets_no_op [OF a, of "''edge''" empty_store configured_store demo_context] b c
  show ?thesis by (simp add: prod_eq_iff)
qed

section \<open>Properties of the folders-ready barrier\<close>

lemma barrier_inv_new: "barrier_inv (new_EdgeWorkspaceContext initial)"
  by (simp add: barrier_inv_def new_EdgeWorkspaceContext_def)

lemma barrier_inv_generate:
  "barrier_inv ws \<Longrightarrow> barrier_inv (generateLaunchConfigurations ws)"
  by (auto simp: barrier_inv_def generateLaunchConfigurations_def split: if_splits)

lemma markFoldersReady_ready: "initialFoldersReady (markFoldersReady ws)"
  by (simp add: markFoldersReady_def generateLaunchConfigurations_def Let_def)

lemma barrier_inv_mark: "barrier_inv ws \<Longrightarrow> barrier_inv (markFoldersReady ws)"
  by (auto simp: barrier_inv_def markFoldersReady_def generateLaunchConfigurations_def Let_def
        split: if_splits)

lemma barrier_inv_check:
  "barrier_inv ws \<Longrightarrow> barrier_inv (checkAllFoldersProcessed ws)"
  by (simp add: checkAllFoldersProcessed_def barrier_inv_mark)

lemma barrier_inv_frame:
  assumes "barrier_inv ws"
    and "foldersReadyFired ws' = foldersReadyFired ws"
    and "initialFoldersReady ws' = initialFoldersReady ws"
    and "generationRuns ws' = generationRuns ws"
    and "generatedConfigurations ws' = generatedConfigurations ws"
    and "timerArmed ws' = timerArmed ws"
    and "timeoutHandle ws' = timeoutHandle ws"
  shows "barrier_inv ws'"
  using assms by (simp add: barrier_inv_def)

lemma barrier_inv_getOrCreate:
  "barrier_inv ws \<Longrightarrow> barrier_inv (snd (getOrCreateFolderContext f ws))"
  by (auto simp: getOrCreateFolderContext_def Let_def
        intro!: barrier_inv_check
        intro: barrier_inv_frame split: option.splits)

lemma barrier_inv_handle:
  "barrier_inv ws \<Longrightarrow> barrier_inv (handleFolderEvent ev ws)"
proof -
  assume inv: "barrier_inv ws"
  show ?thesis
  proof (cases "folder ev")
    case None
    with inv show ?thesis by (simp add: handleFolderEvent_def)
  next
    case (Some f)
    from barrier_inv_getOrCreate [OF inv, of f]
    have "barrier_inv (snd (getOrCreateFolderContext f ws))" .
    then have a: "barrier_inv ((snd (getOrCreateFolderContext f ws))
        \<lparr>packageChanges := packageChanges (snd (getOrCreateFolderContext f ws)) @
           [fst (getOrCreateFolderContext f ws)]\<rparr>)"
      by (rule barrier_inv_frame) simp_all
    have b: "barrier_inv (ws\<lparr>folders := remove_first (\<lambda>g. ref g = ref f) (folders ws),
                      refreshPrompts := refreshPrompts ws + 1\<rparr>)"
      using inv by (rule barrier_inv_frame) simp_all
    from Some inv a b show ?thesis
      by (simp add: handleFolderEvent_def split_beta split: option.splits)
  qed
qed

lemma barrier_inv_step: "barrier_inv ws \<Longrightarrow> barrier_inv (ws_step e ws)"
proof (cases e)
  case (FolderEvent ev)
  assume "barrier_inv ws"
  with FolderEvent show ?thesis by (simp add: barrier_inv_handle)
next
  case TimerExpired
  assume "barrier_inv ws"
  with TimerExpired show ?thesis
    by (auto simp: barrier_inv_def markFoldersReady_def generateLaunchConfigurations_def Let_def
          split: if_splits)
next
  case GenerateCall
  assume "barrier_inv ws"
  with GenerateCall show ?thesis by (simp add: barrier_inv_generate)
qed

lemma barrier_inv_run: "barrier_inv ws \<Longrightarrow> barrier_inv (ws_run es ws)"
  unfolding ws_run_def by (induction es arbitrary: ws) (simp_all add: barrier_inv_step)

lemma ws_run_append: "ws_run (es @ es') ws = ws_run es' (ws_run es ws)"
  by (simp add: ws_run_def)


lemma ready_generate:
  "initialFoldersReady (generateLaunchConfigurations ws) = initialFoldersReady ws"
  by (simp add: generateLaunchConfigurations_def)

lemma ready_mark_mono: "initialFoldersReady ws \<Longrightarrow> markFoldersReady ws = ws"
  by (simp add: markFoldersReady_def)

lemma ready_check_mono:
  "initialFoldersReady ws \<Longrightarrow> initialFoldersReady (checkAllFoldersProcessed ws)"
  by (simp add: checkAllFoldersProcessed_def ready_mark_mono)

lemma ready_getOrCreate_mono:
  "initialFoldersReady ws \<Longrightarrow> initialFoldersReady (snd (getOrCreateFolderContext f ws))"
  by (simp add: getOrCreateFolderContext_def Let_def ready_check_mono split: option.splits)

lemma ready_handle_mono:
  "initialFoldersReady ws \<Longrightarrow> initialFoldersReady (handleFolderEvent ev ws)"
  using ready_getOrCreate_mono [of ws]
  by (simp add: handleFolderEvent_def split_beta split: option.splits)

lemma ready_step_mono: "initialFoldersReady ws \<Longrightarrow> initialFoldersReady (ws_step e ws)"
  by (cases e) (simp_all add: ready_handle_mono ready_mark_mono ready_generate markFoldersReady_ready)

lemma ready_run_mono: "initialFoldersReady ws \<Longrightarrow> initialFoldersReady (ws_run es ws)"
  unfolding ws_run_def by (induction es arbitrary: ws) (simp_all add: ready_step_mono)

lemma timer_step_ready: "barrier_inv ws \<Longrightarrow> initialFoldersReady (ws_step TimerExpired ws)"
  by (auto simp: barrier_inv_def markFoldersReady_ready split: if_splits)

lemma timer_run_ready:
  "barrier_inv ws \<Longrightarrow> TimerExpired \<in> set es \<Longrightarrow> initialFoldersReady (ws_run es ws)"
proof (induction es arbitrary: ws)
  case Nil
  then show ?case by simp
next
  case (Cons e es)
  show ?case
  proof (cases "e = TimerExpired")
    case True
    with Cons.prems(1) have "initialFoldersReady (ws_step e ws)"
      by (simp add: timer_step_ready del: ws_step.simps)
    then have "initialFoldersReady (ws_run es (ws_step e ws))"
      by (rule ready_run_mono)
    then show ?thesis by (simp add: ws_run_def)
  next
    case False
    with Cons.prems(2) have "TimerExpired \<in> set es" by simp
    with Cons.IH [of "ws_step e ws"] Cons.prems(1)
    show ?thesis by (simp add: ws_run_def barrier_inv_step)
  qed
qed

lemma quiet_run_not_ready:
  "\<not> initialFoldersReady ws \<Longrightarrow> list_all (\<lambda>e. e = GenerateCall) es \<Longrightarrow>
     \<not> initialFoldersReady (ws_run es ws)"
  unfolding ws_run_def by (induction es arbitrary: ws) (simp_all add: ready_generate)

lemma quiet_events:
  "\<not> list_ex is_folder_event es \<Longrightarrow> TimerExpired \<notin> set es \<Longrightarrow>
     list_all (\<lambda>e. e = GenerateCall) es"
proof (induction es)
  case Nil
  then show ?case by simp
next
  case (Cons e es)
  then show ?case by (cases e) (simp_all add: is_folder_event_def)
qed

lemma barrier_inv_after: "barrier_inv (workspace_after initial events)"
  by (simp add: workspace_after_def barrier_inv_run barrier_inv_new)

text \<open>
  C2: after the constructor and any sequence of folder events, timer expiries and direct
  calls of \<open>generateLaunchConfigurations\<close>: the folders-ready event has fired exactly
  once if the ready flag is set and not at all otherwise; the body of the generation
  pass has run at most once; once the flag is set, the pass has run exactly once, the
  timer is cancelled and its handle cleared, and whatever happens later the flag stays
  set and both counts stay at one. The expiry of the timer sets the flag. If no folder
  event ever arrives, the event fires exactly once, at the expiry of the timer and not
  before, and the pass then has run exactly once.
\<close>

theorem folders_ready_exactly_once:
  "foldersReadyFired (workspace_after initial events) =
     (if initialFoldersReady (workspace_after initial events) then 1 else 0) \<and>
   generationRuns (workspace_after initial events) \<le> 1 \<and>
   (initialFoldersReady (workspace_after initial events) \<longrightarrow>
      generationRuns (workspace_after initial events) = 1 \<and>
      \<not> timerArmed (workspace_after initial events) \<and>
      \<not> timeoutHandle (workspace_after initial events) \<and>
      initialFoldersReady (workspace_after initial (events @ later)) \<and>
      foldersReadyFired (workspace_after initial (events @ later)) = 1 \<and>
      generationRuns (workspace_after initial (events @ later)) = 1) \<and>
   (TimerExpired \<in> set events \<longrightarrow> initialFoldersReady (workspace_after initial events)) \<and>
   (\<not> list_ex is_folder_event events \<longrightarrow>
      foldersReadyFired (workspace_after initial events) =
        (if TimerExpired \<in> set events then 1 else 0) \<and>
      (TimerExpired \<in> set events \<longrightarrow> generationRuns (workspace_after initial events) = 1))"
proof -
  let ?ws = "workspace_after initial events"
  let ?ws' = "workspace_after initial (events @ later)"
  have inv: "barrier_inv ?ws" and inv': "barrier_inv ?ws'"
    by (rule barrier_inv_after)+
  have later: "?ws' = ws_run later ?ws"
    by (simp add: workspace_after_def ws_run_append)
  have fired: "foldersReadyFired ?ws = (if initialFoldersReady ?ws then 1 else 0)"
    using inv by (simp add: barrier_inv_def)
  have runs: "generationRuns ?ws \<le> 1"
    using inv by (simp add: barrier_inv_def)
  have ready: "generationRuns ?ws = 1 \<and> \<not> timerArmed ?ws \<and> \<not> timeoutHandle ?ws \<and>
      initialFoldersReady ?ws' \<and> foldersReadyFired ?ws' = 1 \<and> generationRuns ?ws' = 1"
    if r: "initialFoldersReady ?ws"
  proof -
    from r have r': "initialFoldersReady ?ws'"
      unfolding later by (rule ready_run_mono)
    from inv r have "generationRuns ?ws = 1 \<and> \<not> timerArmed ?ws \<and> \<not> timeoutHandle ?ws"
      by (simp add: barrier_inv_def)
    moreover from inv' r' have "foldersReadyFired ?ws' = 1 \<and> generationRuns ?ws' = 1"
      by (simp add: barrier_inv_def)
    ultimately show ?thesis using r' by simp
  qed
  have timer: "initialFoldersReady ?ws" if "TimerExpired \<in> set events"
    unfolding workspace_after_def using barrier_inv_new that by (rule timer_run_ready)
  have quiet: "\<not> initialFoldersReady ?ws"
    if "\<not> list_ex is_folder_event events" and "TimerExpired \<notin> set events"
    unfolding workspace_after_def
    by (rule quiet_run_not_ready)
       (simp_all add: new_EdgeWorkspaceContext_def quiet_events [OF that])
  from fired runs ready timer quiet show ?thesis by auto
qed

lemmas workspace_simps =
  workspace_after_def ws_run_def new_EdgeWorkspaceContext_def add_event_def
  handleFolderEvent_def getOrCreateFolderContext_def checkAllFoldersProcessed_def
  markFoldersReady_def generateLaunchConfigurations_def set_add_def set_has_def set_size_def
  Let_def

theorem folders_ready_exactly_once_witness:
  "foldersReadyFired (workspace_after (Some [''/a'']) []) = 0 \<and>
   foldersReadyFired (workspace_after (Some [''/a'']) [TimerExpired]) = 1 \<and>
   generationRuns (workspace_after (Some [''/a'']) [TimerExpired]) = 1 \<and>
   \<not> timerArmed (workspace_after (Some [''/a'']) [TimerExpired]) \<and>
   foldersReadyFired
     (workspace_after (Some [''/a''])
        ([TimerExpired] @ [add_event 1 ''/a'', TimerExpired, GenerateCall])) = 1 \<and>
   generationRuns
     (workspace_after (Some [''/a''])
        ([TimerExpired] @ [add_event 1 ''/a'', TimerExpired, GenerateCall])) = 1"
proof -
  have a: "TimerExpired \<in> set [TimerExpired]" by simp
  have b: "\<not> list_ex is_folder_event [TimerExpired]" by (simp add: is_folder_event_def)
  have c: "\<not> list_ex is_folder_event []" by simp
  from folders_ready_exactly_once
         [of "Some [''/a'']" "[TimerExpired]" "[add_event 1 ''/a'', TimerExpired, GenerateCall]"]
       folders_ready_exactly_once [of "Some [''/a'']" "[]" "[]"] a b c
  show ?thesis by simp
qed

text \<open>
  C1: the trigger compares the sizes of the two path sets. With initial folders \<open>/a\<close>
  and \<open>/b\<close>, an add event for the outside folder \<open>/c\<close> followed by one for \<open>/a\<close>
  fires the barrier although \<open>/b\<close> has not been processed; with the single initial
  folder \<open>/a\<close>, the same two events process every initial path and do not fire it.
\<close>

theorem size_test_is_not_superset_test:
  "initialFoldersReady
     (workspace_after (Some [''/a'', ''/b'']) [add_event 1 ''/c'', add_event 2 ''/a'']) \<and>
   processedFolderPaths
     (workspace_after (Some [''/a'', ''/b'']) [add_event 1 ''/c'', add_event 2 ''/a'']) =
     [''/c'', ''/a''] \<and>
   \<not> set (initialFolderPaths
            (workspace_after (Some [''/a'', ''/b'']) [add_event 1 ''/c'', add_event 2 ''/a'']))
      \<subseteq> set (processedFolderPaths
            (workspace_after (Some [''/a'', ''/b'']) [add_event 1 ''/c'', add_event 2 ''/a''])) \<and>
   \<not> initialFoldersReady
       (workspace_after (Some [''/a'']) [add_event 1 ''/c'', add_event 2 ''/a'']) \<and>
   processedFolderPaths
     (workspace_after (Some [''/a'']) [add_event 1 ''/c'', add_event 2 ''/a'']) =
     [''/c'', ''/a''] \<and>
   set (initialFolderPaths
          (workspace_after (Some [''/a'']) [add_event 1 ''/c'', add_event 2 ''/a'']))
     \<subseteq> set (processedFolderPaths
          (workspace_after (Some [''/a'']) [add_event 1 ''/c'', add_event 2 ''/a'']))"
  by (simp add: workspace_simps)

section \<open>Properties of the routing on the project file\<close>

lemma route_read_failed: "route_by_language None = Inl TypeError"
  by (simp add: route_by_language_def get_property_def)

lemma resolve_read_failed:
  "resolveDebugConfigurationWithSubstitutedVariables (Some path) (ReadFailed description) =
     ([''Could not read or parse wendy.json at '' @ path @ '': '' @ description], Inl TypeError)"
  by (simp add: resolveDebugConfigurationWithSubstitutedVariables_def load_project_file_def
      route_read_failed)

lemma provide_read_failed:
  "provideDebugConfigurations (Some path) (ReadFailed description) =
     ([''Providing Wendy debug configurations...'',
       ''Could not read or parse wendy.json at '' @ path @ '': '' @ description], Inl TypeError)"
  by (simp add: provideDebugConfigurations_def load_project_file_def route_read_failed)

lemma resolve_parsed_object:
  "resolveDebugConfigurationWithSubstitutedVariables (Some path) (Parsed (JObj members)) =
     ([], Inr (if map_of members ''language'' = Some (JStr ''python'') then PythonBranch
               else SwiftBranch))"
  by (simp add: resolveDebugConfigurationWithSubstitutedVariables_def load_project_file_def
      route_by_language_def get_property_def)

text \<open>
  C9: for a folder whose \<open>wendy.json\<close> cannot be read or parsed, both
  \<open>resolveDebugConfigurationWithSubstitutedVariables\<close> and \<open>provideDebugConfigurations\<close>
  log the failure and then throw a \<open>TypeError\<close> on \<open>edgeConfig.language\<close>, where the
  specification says they continue into the Swift branch without throwing.
\<close>

theorem missing_project_file_throws:
  "resolveDebugConfigurationWithSubstitutedVariables (Some ''/work/app/wendy.json'')
     (ReadFailed ''ENOENT'') =
     ([''Could not read or parse wendy.json at /work/app/wendy.json: ENOENT''], Inl TypeError) \<and>
   provideDebugConfigurations (Some ''/work/app/wendy.json'') (ReadFailed ''ENOENT'') =
     ([''Providing Wendy debug configurations...'',
       ''Could not read or parse wendy.json at /work/app/wendy.json: ENOENT''], Inl TypeError) \<and>
   snd (resolveDebugConfigurationWithSubstitutedVariables (Some ''/work/app/wendy.json'')
          (ReadFailed ''ENOENT'')) \<noteq> Inr SwiftBranch"
  by (simp add: resolve_read_failed provide_read_failed)

section \<open>Properties of the device manager\<close>

lemma addDevice_duplicate:
  "list_ex (\<lambda>d. entry_address d = address) (stored_devices dm) \<Longrightarrow>
     addDevice address newId dm = (Inl (DeviceExists address), dm)"
  by (simp add: addDevice_def)

lemma setCurrentDevice_unknown:
  "i \<noteq> [] \<Longrightarrow> find (\<lambda>d. dev_id d = i) (devices dm) = None \<Longrightarrow>
     setCurrentDevice (Some i) dm = (Some (DeviceNotFound i), dm)"
  by (simp add: setCurrentDevice_def truthy_def)

lemma addDevice_first_unknown:
  assumes "stored_devices dm = []" and "newId \<noteq> []"
    and "find (\<lambda>d. dev_id d = newId) (devices dm) = None"
  shows "addDevice address newId dm =
     (Inl (DeviceNotFound newId),
      dm\<lparr>config_devices := Some [\<lparr>entry_id = newId, entry_address = address\<rparr>]\<rparr>)"
  using assms by (simp add: addDevice_def Let_def setCurrentDevice_unknown)

lemma fresh_manager_eq: "fresh_manager = new_DeviceManager None None"
  by (simp add: fresh_manager_def getDevices_def refresh_devices_def getCurrentDevice_def
      getCurrentDeviceId_def stored_devices_def new_DeviceManager_def)

text \<open>
  C7: on a manager that has listed its devices and has none stored, \<open>addDevice\<close> of
  \<open>host1\<close> stores the entry and then throws ``not found'' from \<open>setCurrentDevice\<close>, so
  the first device is not made current, where the specification says it becomes the
  current device. The duplicate part holds: adding \<open>host1\<close> again is rejected with the
  duplicate error and the stored list keeps its single entry.
\<close>

theorem first_added_device_not_made_current:
  "addDevice ''host1'' ''0197f2a0'' fresh_manager =
     (Inl (DeviceNotFound ''0197f2a0''),
      fresh_manager\<lparr>config_devices := Some [\<lparr>entry_id = ''0197f2a0'', entry_address = ''host1''\<rparr>]\<rparr>) \<and>
   config_currentDevice (snd (addDevice ''host1'' ''0197f2a0'' fresh_manager)) = None \<and>
   addDevice ''host1'' ''0197f2a1'' (snd (addDevice ''host1'' ''0197f2a0'' fresh_manager)) =
     (Inl (DeviceExists ''host1''), snd (addDevice ''host1'' ''0197f2a0'' fresh_manager)) \<and>
   stored_devices (snd (addDevice ''host1'' ''0197f2a0'' fresh_manager)) =
     [\<lparr>entry_id = ''0197f2a0'', entry_address = ''host1''\<rparr>]"
proof -
  have first: "addDevice ''host1'' ''0197f2a0'' fresh_manager =
     (Inl (DeviceNotFound ''0197f2a0''),
      fresh_manager\<lparr>config_devices := Some [\<lparr>entry_id = ''0197f2a0'', entry_address = ''host1''\<rparr>]\<rparr>)"
    by (rule addDevice_first_unknown)
       (simp_all add: fresh_manager_eq new_DeviceManager_def stored_devices_def)
  have second: "addDevice ''host1'' ''0197f2a1''
        (fresh_manager\<lparr>config_devices := Some [\<lparr>entry_id = ''0197f2a0'', entry_address = ''host1''\<rparr>]\<rparr>) =
     (Inl (DeviceExists ''host1''),
      fresh_manager\<lparr>config_devices := Some [\<lparr>entry_id = ''0197f2a0'', entry_address = ''host1''\<rparr>]\<rparr>)"
    by (rule addDevice_duplicate) (simp add: stored_devices_def)
  show ?thesis
    unfolding first using second
    by (simp add: stored_devices_def fresh_manager_eq new_DeviceManager_def)
qed


lemma filter_keeps_length:
  "(length (filter (\<lambda>d. entry_id d \<noteq> i) xs) = length xs) =
     (\<not> list_ex (\<lambda>d. entry_id d = i) xs)"
proof (cases "list_ex (\<lambda>d. entry_id d = i) xs")
  case True
  then obtain x where "x \<in> set xs" and "entry_id x = i"
    by (auto simp: list_ex_iff)
  then have "length (filter (\<lambda>d. entry_id d \<noteq> i) xs) < length xs"
    by (intro length_filter_less) auto
  with True show ?thesis by simp
next
  case False
  then have "filter (\<lambda>d. entry_id d \<noteq> i) xs = xs"
    by (auto simp: list_ex_iff filter_id_conv)
  with False show ?thesis by simp
qed

lemma setCurrentDevice_result:
  "fst (setCurrentDevice deviceId dm) = None \<Longrightarrow>
     config_currentDevice (snd (setCurrentDevice deviceId dm)) = deviceId \<and>
     config_devices (snd (setCurrentDevice deviceId dm)) = config_devices dm"
  by (auto simp: setCurrentDevice_def write_currentDevice_def checkForUpdates_def
        split: option.splits if_splits)

lemma setCurrentDevice_stored:
  "stored_devices (snd (setCurrentDevice deviceId dm)) = stored_devices dm"
  by (auto simp: setCurrentDevice_def write_currentDevice_def checkForUpdates_def
        stored_devices_def split: option.splits if_splits)

lemma stored_devices_update:
  "stored_devices (dm\<lparr>config_devices := Some xs\<rparr>) = xs"
  by (simp add: stored_devices_def)

lemma setCurrentDevice_known:
  "list_ex (\<lambda>d. dev_id d = i) (devices dm) \<Longrightarrow> fst (setCurrentDevice (Some i) dm) = None"
  by (auto simp: setCurrentDevice_def write_currentDevice_def list_ex_iff find_None_iff
        split: option.splits)

lemma setCurrentDevice_none: "fst (setCurrentDevice None dm) = None"
  by (simp add: setCurrentDevice_def write_currentDevice_def)

lemma deleteDevice_cases:
  "deleteDevice deviceId dm =
     (if \<not> list_ex (\<lambda>d. entry_id d = deviceId) (stored_devices dm)
      then (Some (DeviceNotFound deviceId), dm)
      else if config_currentDevice dm = Some deviceId then
        (case filter (\<lambda>d. entry_id d \<noteq> deviceId) (stored_devices dm) of
           first # _ \<Rightarrow>
             setCurrentDevice (Some (entry_id first))
               (dm\<lparr>config_devices := Some (filter (\<lambda>d. entry_id d \<noteq> deviceId) (stored_devices dm))\<rparr>)
         | [] \<Rightarrow>
             setCurrentDevice None
               (dm\<lparr>config_devices := Some (filter (\<lambda>d. entry_id d \<noteq> deviceId) (stored_devices dm))\<rparr>))
      else (None, dm\<lparr>config_devices := Some (filter (\<lambda>d. entry_id d \<noteq> deviceId) (stored_devices dm)),
                     devicesChanged := devicesChanged dm + 1\<rparr>))"
  by (simp add: deleteDevice_def Let_def filter_keeps_length getCurrentDeviceId_def)

text \<open>
  What \<open>deleteDevice\<close> does in the states where it works: it rejects with ``not found''
  and changes nothing when no stored entry has the id; when it returns normally on the
  current device, the stored list is the old one without the entry and the
  current-device setting is the id of the first remaining entry, or unset when none
  remains. It returns normally when no entry remains, and when the first remaining
  entry is among the devices the manager holds in memory.
\<close>

lemma deleteDevice_reselects_current:
  "(\<not> list_ex (\<lambda>d. entry_id d = deviceId) (stored_devices dm) \<longrightarrow>
      deleteDevice deviceId dm = (Some (DeviceNotFound deviceId), dm)) \<and>
   (fst (deleteDevice deviceId dm) = None \<and> config_currentDevice dm = Some deviceId \<longrightarrow>
      stored_devices (snd (deleteDevice deviceId dm)) =
        filter (\<lambda>d. entry_id d \<noteq> deviceId) (stored_devices dm) \<and>
      config_currentDevice (snd (deleteDevice deviceId dm)) =
        (case filter (\<lambda>d. entry_id d \<noteq> deviceId) (stored_devices dm) of
           [] \<Rightarrow> None
         | first # _ \<Rightarrow> Some (entry_id first))) \<and>
   (list_ex (\<lambda>d. entry_id d = deviceId) (stored_devices dm) \<and>
    config_currentDevice dm = Some deviceId \<and>
    (case filter (\<lambda>d. entry_id d \<noteq> deviceId) (stored_devices dm) of
       [] \<Rightarrow> True
     | first # _ \<Rightarrow> list_ex (\<lambda>d. dev_id d = entry_id first) (devices dm)) \<longrightarrow>
      fst (deleteDevice deviceId dm) = None)"
proof (intro conjI impI)
  assume "\<not> list_ex (\<lambda>d. entry_id d = deviceId) (stored_devices dm)"
  then show "deleteDevice deviceId dm = (Some (DeviceNotFound deviceId), dm)"
    by (simp add: deleteDevice_cases)
next
  let ?rest = "filter (\<lambda>d. entry_id d \<noteq> deviceId) (stored_devices dm)"
  let ?dm1 = "dm\<lparr>config_devices := Some ?rest\<rparr>"
  assume a: "fst (deleteDevice deviceId dm) = None \<and> config_currentDevice dm = Some deviceId"
  then have found: "list_ex (\<lambda>d. entry_id d = deviceId) (stored_devices dm)"
    by (auto simp: deleteDevice_cases split: if_splits)
  show "stored_devices (snd (deleteDevice deviceId dm)) = ?rest"
  proof (cases ?rest)
    case Nil
    with a found show ?thesis
      by (simp add: deleteDevice_cases setCurrentDevice_stored stored_devices_update)
  next
    case (Cons first more)
    with a found show ?thesis
      by (simp add: deleteDevice_cases setCurrentDevice_stored stored_devices_update)
  qed
  from a have cur: "config_currentDevice dm = Some deviceId"
    and ok: "fst (deleteDevice deviceId dm) = None"
    by simp_all
  show "config_currentDevice (snd (deleteDevice deviceId dm)) =
        (case ?rest of [] \<Rightarrow> None | first # _ \<Rightarrow> Some (entry_id first))"
  proof (cases ?rest)
    case Nil
    with found cur have eq: "deleteDevice deviceId dm = setCurrentDevice None ?dm1"
      by (simp add: deleteDevice_cases)
    from ok setCurrentDevice_result [of None ?dm1] Nil show ?thesis
      unfolding eq by simp
  next
    case (Cons first more)
    with found cur
    have eq: "deleteDevice deviceId dm = setCurrentDevice (Some (entry_id first)) ?dm1"
      by (simp add: deleteDevice_cases)
    from ok setCurrentDevice_result [of "Some (entry_id first)" ?dm1] Cons show ?thesis
      unfolding eq by simp
  qed
next
  let ?rest = "filter (\<lambda>d. entry_id d \<noteq> deviceId) (stored_devices dm)"
  let ?dm1 = "dm\<lparr>config_devices := Some ?rest\<rparr>"
  assume a: "list_ex (\<lambda>d. entry_id d = deviceId) (stored_devices dm) \<and>
    config_currentDevice dm = Some deviceId \<and>
    (case ?rest of [] \<Rightarrow> True
     | first # _ \<Rightarrow> list_ex (\<lambda>d. dev_id d = entry_id first) (devices dm))"
  show "fst (deleteDevice deviceId dm) = None"
  proof (cases ?rest)
    case Nil
    with a show ?thesis by (simp add: deleteDevice_cases setCurrentDevice_none)
  next
    case (Cons first more)
    with a have "list_ex (\<lambda>d. dev_id d = entry_id first) (devices ?dm1)" by simp
    then have "fst (setCurrentDevice (Some (entry_id first)) ?dm1) = None"
      by (rule setCurrentDevice_known)
    with a Cons show ?thesis by (simp add: deleteDevice_cases)
  qed
qed

lemmas registry_simps =
  kitchen_def getDevices_def refresh_devices_def getCurrentDevice_def getCurrentDeviceId_def
  stored_devices_def new_DeviceManager_def manual_device_def checkForUpdates_def set_has_def
  set_add_def Let_def

lemma deleteDevice_reselects_current_listed:
  "deleteDevice ''id-none'' two_device_manager =
     (Some (DeviceNotFound ''id-none''), two_device_manager) \<and>
   fst (deleteDevice ''id-kitchen'' two_device_manager) = None \<and>
   stored_devices (snd (deleteDevice ''id-kitchen'' two_device_manager)) = [garage] \<and>
   config_currentDevice (snd (deleteDevice ''id-kitchen'' two_device_manager)) = Some ''id-garage'' \<and>
   fst (deleteDevice ''id-garage'' one_device_manager) = None \<and>
   stored_devices (snd (deleteDevice ''id-garage'' one_device_manager)) = [] \<and>
   config_currentDevice (snd (deleteDevice ''id-garage'' one_device_manager)) = None"
proof -
  have two: "stored_devices two_device_manager = [kitchen, garage]"
      "config_currentDevice two_device_manager = Some ''id-kitchen''"
      "list_ex (\<lambda>d. dev_id d = ''id-garage'') (devices two_device_manager)"
    by (simp_all add: two_device_manager_def garage_def registry_simps)
  have one: "stored_devices one_device_manager = [garage]"
      "config_currentDevice one_device_manager = Some ''id-garage''"
    by (simp_all add: one_device_manager_def garage_def registry_simps)
  have ids: "entry_id kitchen = ''id-kitchen''" "entry_id garage = ''id-garage''"
    by (simp_all add: kitchen_def garage_def)
  from deleteDevice_reselects_current [of "''id-none''" two_device_manager]
       deleteDevice_reselects_current [of "''id-kitchen''" two_device_manager]
       deleteDevice_reselects_current [of "''id-garage''" one_device_manager]
       two one ids
  show ?thesis by simp
qed

lemma deleteDevice_unknown_successor:
  assumes "config_currentDevice dm = Some deviceId"
    and "filter (\<lambda>d. entry_id d \<noteq> deviceId) (stored_devices dm) = first # others"
    and "list_ex (\<lambda>d. entry_id d = deviceId) (stored_devices dm)"
    and "entry_id first \<noteq> []"
    and "find (\<lambda>d. dev_id d = entry_id first) (devices dm) = None"
  shows "deleteDevice deviceId dm =
     (Some (DeviceNotFound (entry_id first)), dm\<lparr>config_devices := Some (first # others)\<rparr>)"
  using assms by (simp add: deleteDevice_cases setCurrentDevice_unknown)

lemma unlisted_manager_eq:
  "unlisted_manager = new_DeviceManager (Some [kitchen, garage]) (Some ''id-kitchen'')"
  by (simp add: unlisted_manager_def getDevices_def)

text \<open>
  C8: on a manager with the two stored devices \<open>kitchen\<close> (current) and \<open>garage\<close> whose
  device listing found no CLI, so that its in-memory device list is still empty,
  \<open>deleteDevice\<close> of the current device stores the list without it and then throws
  ``not found'' for the remaining device from \<open>setCurrentDevice\<close>: the current-device
  setting keeps the id of the deleted device, where the specification says the other
  device is selected. Rejecting an unknown id without any change does hold.
\<close>

theorem deleteDevice_leaves_deleted_current:
  "deleteDevice ''id-kitchen'' unlisted_manager =
     (Some (DeviceNotFound ''id-garage''), unlisted_manager\<lparr>config_devices := Some [garage]\<rparr>) \<and>
   stored_devices (snd (deleteDevice ''id-kitchen'' unlisted_manager)) = [garage] \<and>
   config_currentDevice (snd (deleteDevice ''id-kitchen'' unlisted_manager)) = Some ''id-kitchen'' \<and>
   config_currentDevice (snd (deleteDevice ''id-kitchen'' unlisted_manager)) \<noteq> Some ''id-garage'' \<and>
   deleteDevice ''id-none'' unlisted_manager = (Some (DeviceNotFound ''id-none''), unlisted_manager)"
proof -
  have call: "deleteDevice ''id-kitchen'' unlisted_manager =
     (Some (DeviceNotFound (entry_id garage)), unlisted_manager\<lparr>config_devices := Some [garage]\<rparr>)"
    by (rule deleteDevice_unknown_successor)
       (simp_all add: unlisted_manager_eq new_DeviceManager_def stored_devices_def
          kitchen_def garage_def)
  have none: "deleteDevice ''id-none'' unlisted_manager =
     (Some (DeviceNotFound ''id-none''), unlisted_manager)"
    by (simp add: deleteDevice_cases unlisted_manager_eq new_DeviceManager_def
          stored_devices_def kitchen_def garage_def)
  have cur: "config_currentDevice unlisted_manager = Some ''id-kitchen''"
    by (simp add: unlisted_manager_eq new_DeviceManager_def)
  show ?thesis
    unfolding call using none cur by (simp add: stored_devices_def garage_def)
qed

section \<open>Properties of the update check\<close>

lemma count_list_update:
  "k < length xs \<Longrightarrow>
     length (filter P (xs[k := y])) + (if P (xs ! k) then 1 else 0) =
     length (filter P xs) + (if P y then 1 else 0)"
proof (induction xs arbitrary: k)
  case Nil
  then show ?case by simp
next
  case (Cons x xs)
  show ?case
  proof (cases k)
    case 0
    then show ?thesis by simp
  next
    case (Suc j)
    with Cons.prems have "j < length xs" by simp
    from Cons.IH [OF this] Suc show ?thesis by simp
  qed
qed

lemma check_inv_new: "check_inv (new_DeviceManager stored current)"
  by (simp add: check_inv_def new_DeviceManager_def queries_for_def prompts_for_def
      waiting_for_def asking_for_def)

lemma check_inv_cong:
  assumes "check_inv dm"
    and "checks dm' = checks dm"
    and "versionQueries dm' = versionQueries dm"
    and "updatePrompts dm' = updatePrompts dm"
    and "deviceIdsCheckedForUpdates dm' = deviceIdsCheckedForUpdates dm"
  shows "check_inv dm'"
  using assms
  by (simp add: check_inv_def queries_for_def prompts_for_def waiting_for_def asking_for_def)

lemma check_inv_checkForUpdates:
  assumes "check_inv dm"
  shows "check_inv (checkForUpdates d dm)"
proof (cases "dev_id d \<in> set (deviceIdsCheckedForUpdates dm)")
  case True
  with assms show ?thesis by (simp add: checkForUpdates_def set_has_def)
next
  case False
  from assms have none: "queries_for (dev_id d) dm + waiting_for (dev_id d) dm = 0"
    using False by (auto simp: check_inv_def)
  show ?thesis
    unfolding check_inv_def
  proof (intro allI)
    fix i
    from assms have old:
      "queries_for i dm + waiting_for i dm \<le> 1"
      "prompts_for i dm + asking_for i dm \<le> queries_for i dm"
      "i \<in> set (deviceIdsCheckedForUpdates dm) \<or> queries_for i dm + waiting_for i dm = 0"
      by (simp_all add: check_inv_def)
    have q: "queries_for i (checkForUpdates d dm) = queries_for i dm"
      and p: "prompts_for i (checkForUpdates d dm) = prompts_for i dm"
      and a: "asking_for i (checkForUpdates d dm) = asking_for i dm"
      and w: "waiting_for i (checkForUpdates d dm) =
               waiting_for i dm + (if dev_id d = i then 1 else 0)"
      and c: "set (deviceIdsCheckedForUpdates (checkForUpdates d dm)) =
               insert (dev_id d) (set (deviceIdsCheckedForUpdates dm))"
      using False
      by (simp_all add: checkForUpdates_def set_has_def set_add_def queries_for_def
            prompts_for_def asking_for_def waiting_for_def waits_def asks_def)
    from old none show
      "queries_for i (checkForUpdates d dm) + waiting_for i (checkForUpdates d dm) \<le> 1 \<and>
       prompts_for i (checkForUpdates d dm) + asking_for i (checkForUpdates d dm)
         \<le> queries_for i (checkForUpdates d dm) \<and>
       (i \<in> set (deviceIdsCheckedForUpdates (checkForUpdates d dm)) \<or>
        queries_for i (checkForUpdates d dm) + waiting_for i (checkForUpdates d dm) = 0)"
      unfolding q p a w c by auto
  qed
qed


lemma waiting_set_check:
  "k < length (checks dm) \<Longrightarrow>
     waiting_for i (set_check k s dm) + (if waits i (checks dm ! k) then 1 else 0) =
     waiting_for i dm +
       (if dev_id (check_device (checks dm ! k)) = i \<and> s = AwaitCli then 1 else 0)"
  using count_list_update [of k "checks dm" "waits i" "(checks dm ! k)\<lparr>check_state := s\<rparr>"]
  by (simp add: waiting_for_def set_check_def waits_def)

lemma asking_set_check:
  "k < length (checks dm) \<Longrightarrow>
     asking_for i (set_check k s dm) + (if asks i (checks dm ! k) then 1 else 0) =
     asking_for i dm +
       (if dev_id (check_device (checks dm ! k)) = i \<and> s = AwaitVersion then 1 else 0)"
  using count_list_update [of k "checks dm" "asks i" "(checks dm ! k)\<lparr>check_state := s\<rparr>"]
  by (simp add: asking_for_def set_check_def asks_def)

lemma set_check_others:
  "versionQueries (set_check k s dm) = versionQueries dm"
  "updatePrompts (set_check k s dm) = updatePrompts dm"
  "deviceIdsCheckedForUpdates (set_check k s dm) = deviceIdsCheckedForUpdates dm"
  "queries_for i (set_check k s dm) = queries_for i dm"
  "prompts_for i (set_check k s dm) = prompts_for i dm"
  by (simp_all add: set_check_def queries_for_def prompts_for_def)

lemma counts_versionQueries_update:
  "waiting_for i (dm\<lparr>versionQueries := qs\<rparr>) = waiting_for i dm"
  "asking_for i (dm\<lparr>versionQueries := qs\<rparr>) = asking_for i dm"
  "prompts_for i (dm\<lparr>versionQueries := qs\<rparr>) = prompts_for i dm"
  "queries_for i (dm'\<lparr>versionQueries := versionQueries dm @ [d]\<rparr>) =
     queries_for i dm + (if dev_id d = i then 1 else 0)"
  by (simp_all add: waiting_for_def asking_for_def prompts_for_def queries_for_def)

lemma counts_updatePrompts_update:
  "waiting_for i (dm\<lparr>updatePrompts := ps\<rparr>) = waiting_for i dm"
  "asking_for i (dm\<lparr>updatePrompts := ps\<rparr>) = asking_for i dm"
  "queries_for i (dm\<lparr>updatePrompts := ps\<rparr>) = queries_for i dm"
  "prompts_for i (dm'\<lparr>updatePrompts := updatePrompts dm @ [d]\<rparr>) =
     prompts_for i dm + (if dev_id d = i then 1 else 0)"
  by (simp_all add: waiting_for_def asking_for_def prompts_for_def queries_for_def)

lemma counts_agentUpdates_update:
  "waiting_for i (dm\<lparr>agentUpdates := us\<rparr>) = waiting_for i dm"
  "asking_for i (dm\<lparr>agentUpdates := us\<rparr>) = asking_for i dm"
  "queries_for i (dm\<lparr>agentUpdates := us\<rparr>) = queries_for i dm"
  "prompts_for i (dm\<lparr>agentUpdates := us\<rparr>) = prompts_for i dm"
  by (simp_all add: waiting_for_def asking_for_def prompts_for_def queries_for_def)

lemma check_inv_cli:
  assumes "check_inv dm"
  shows "check_inv (checkForUpdates_cli k cli dm)"
proof (cases "k < length (checks dm) \<and> check_state (checks dm ! k) = AwaitCli")
  case False
  with assms show ?thesis by (auto simp: checkForUpdates_cli_def)
next
  case True
  then have k: "k < length (checks dm)" and st: "check_state (checks dm ! k) = AwaitCli"
    by simp_all
  show ?thesis
    unfolding check_inv_def
  proof (intro allI)
    fix i
    from assms have old:
      "queries_for i dm + waiting_for i dm \<le> 1"
      "prompts_for i dm + asking_for i dm \<le> queries_for i dm"
      "i \<in> set (deviceIdsCheckedForUpdates dm) \<or> queries_for i dm + waiting_for i dm = 0"
      by (simp_all add: check_inv_def)
    let ?dm' = "checkForUpdates_cli k cli dm"
    show "queries_for i ?dm' + waiting_for i ?dm' \<le> 1 \<and>
          prompts_for i ?dm' + asking_for i ?dm' \<le> queries_for i ?dm' \<and>
          (i \<in> set (deviceIdsCheckedForUpdates ?dm') \<or> queries_for i ?dm' + waiting_for i ?dm' = 0)"
    proof (cases cli)
      case False
      from waiting_set_check [OF k, of i "Thrown CliMissing"]
           asking_set_check [OF k, of i "Thrown CliMissing"] old st False k
      show ?thesis
        by (auto simp: checkForUpdates_cli_def set_check_others waits_def asks_def
              split: if_splits)
    next
      case True
      from waiting_set_check [OF k, of i AwaitVersion]
           asking_set_check [OF k, of i AwaitVersion] old st True k
      show ?thesis
        by (auto simp: checkForUpdates_cli_def set_check_others counts_versionQueries_update
              waits_def asks_def split: if_splits)
    qed
  qed
qed

lemma check_inv_version:
  assumes "check_inv dm"
  shows "check_inv (checkForUpdates_version k output dm)"
proof (cases "k < length (checks dm) \<and> check_state (checks dm ! k) = AwaitVersion")
  case False
  with assms show ?thesis by (auto simp: checkForUpdates_version_def)
next
  case True
  then have k: "k < length (checks dm)" and st: "check_state (checks dm ! k) = AwaitVersion"
    by simp_all
  show ?thesis
    unfolding check_inv_def
  proof (intro allI)
    fix i
    from assms have old:
      "queries_for i dm + waiting_for i dm \<le> 1"
      "prompts_for i dm + asking_for i dm \<le> queries_for i dm"
      "i \<in> set (deviceIdsCheckedForUpdates dm) \<or> queries_for i dm + waiting_for i dm = 0"
      by (simp_all add: check_inv_def)
    let ?dm' = "checkForUpdates_version k output dm"
    have step: "?dm' = set_check k (Thrown ParseFailed) dm \<or> ?dm' = set_check k (Thrown ExecFailed) dm \<or>
        (\<exists>s. s \<noteq> AwaitCli \<and> s \<noteq> AwaitVersion \<and>
           (?dm' = set_check k s dm \<or>
            ?dm' = (set_check k s dm)\<lparr>updatePrompts := updatePrompts dm @ [check_device (checks dm ! k)]\<rparr>))"
      using True by (auto simp: checkForUpdates_version_def split: sum.splits)
    then obtain s where s: "s \<noteq> AwaitCli" "s \<noteq> AwaitVersion"
      and dm': "?dm' = set_check k s dm \<or>
            ?dm' = (set_check k s dm)\<lparr>updatePrompts := updatePrompts dm @ [check_device (checks dm ! k)]\<rparr>"
      by auto
    from dm' waiting_set_check [OF k, of i s] asking_set_check [OF k, of i s] old st s k
    show "queries_for i ?dm' + waiting_for i ?dm' \<le> 1 \<and>
          prompts_for i ?dm' + asking_for i ?dm' \<le> queries_for i ?dm' \<and>
          (i \<in> set (deviceIdsCheckedForUpdates ?dm') \<or> queries_for i ?dm' + waiting_for i ?dm' = 0)"
      by (auto simp: set_check_others counts_updatePrompts_update waits_def asks_def
            split: if_splits)
  qed
qed

lemma check_inv_prompt:
  assumes "check_inv dm"
  shows "check_inv (checkForUpdates_prompt k confirmed dm)"
proof (cases "k < length (checks dm) \<and> check_state (checks dm ! k) = AwaitPrompt")
  case False
  with assms show ?thesis by (auto simp: checkForUpdates_prompt_def)
next
  case True
  then have k: "k < length (checks dm)" and st: "check_state (checks dm ! k) = AwaitPrompt"
    by simp_all
  show ?thesis
    unfolding check_inv_def
  proof (intro allI)
    fix i
    from assms have old:
      "queries_for i dm + waiting_for i dm \<le> 1"
      "prompts_for i dm + asking_for i dm \<le> queries_for i dm"
      "i \<in> set (deviceIdsCheckedForUpdates dm) \<or> queries_for i dm + waiting_for i dm = 0"
      by (simp_all add: check_inv_def)
    let ?dm' = "checkForUpdates_prompt k confirmed dm"
    from waiting_set_check [OF k, of i Returned] asking_set_check [OF k, of i Returned] old st k True
    show "queries_for i ?dm' + waiting_for i ?dm' \<le> 1 \<and>
          prompts_for i ?dm' + asking_for i ?dm' \<le> queries_for i ?dm' \<and>
          (i \<in> set (deviceIdsCheckedForUpdates ?dm') \<or> queries_for i ?dm' + waiting_for i ?dm' = 0)"
      by (auto simp: checkForUpdates_prompt_def set_check_others counts_agentUpdates_update
            waits_def asks_def split: if_splits)
  qed
qed


lemma check_inv_frame:
  "check_inv (dm\<lparr>config_devices := a\<rparr>) = check_inv dm"
  "check_inv (dm\<lparr>config_currentDevice := b\<rparr>) = check_inv dm"
  "check_inv (dm\<lparr>devices := c\<rparr>) = check_inv dm"
  "check_inv (dm\<lparr>currentDevice := e\<rparr>) = check_inv dm"
  "check_inv (dm\<lparr>currentDeviceChanged := f\<rparr>) = check_inv dm"
  "check_inv (dm\<lparr>devicesChanged := g\<rparr>) = check_inv dm"
  by (simp_all add: check_inv_def queries_for_def prompts_for_def waiting_for_def asking_for_def)

lemma check_inv_setCurrentDevice:
  "check_inv dm \<Longrightarrow> check_inv (snd (setCurrentDevice deviceId dm))"
  by (simp add: setCurrentDevice_def write_currentDevice_def check_inv_frame
        check_inv_checkForUpdates split: option.splits)

lemma check_inv_addDevice:
  "check_inv dm \<Longrightarrow> check_inv (snd (addDevice address newId dm))"
  using check_inv_setCurrentDevice
          [of "dm\<lparr>config_devices :=
                   Some (stored_devices dm @ [\<lparr>entry_id = newId, entry_address = address\<rparr>])\<rparr>"
              "Some newId"]
  by (auto simp: addDevice_def Let_def check_inv_frame split: prod.splits option.splits)

lemma check_inv_deleteDevice:
  "check_inv dm \<Longrightarrow> check_inv (snd (deleteDevice deviceId dm))"
  by (auto simp: deleteDevice_def Let_def check_inv_frame check_inv_setCurrentDevice
        split: list.splits)

lemma check_inv_refresh:
  "check_inv dm \<Longrightarrow> check_inv (refresh_devices ds dm)"
  by (auto simp: refresh_devices_def getCurrentDevice_def Let_def check_inv_frame
        check_inv_checkForUpdates split: option.splits prod.splits if_splits)

lemma check_inv_getDevices:
  "check_inv dm \<Longrightarrow> check_inv (snd (getDevices outcome dm))"
  by (cases outcome) (simp_all add: getDevices_def Let_def check_inv_refresh)

lemma check_inv_step: "check_inv dm \<Longrightarrow> check_inv (dm_step e dm)"
  by (cases e)
     (simp_all add: check_inv_getDevices check_inv_setCurrentDevice check_inv_addDevice
        check_inv_deleteDevice check_inv_checkForUpdates check_inv_cli check_inv_version
        check_inv_prompt)

lemma check_inv_run: "check_inv dm \<Longrightarrow> check_inv (dm_run es dm)"
  unfolding dm_run_def by (induction es arbitrary: dm) (simp_all add: check_inv_step)

lemma dm_run_append: "dm_run (es @ es') dm = dm_run es' (dm_run es dm)"
  by (simp add: dm_run_def)

text \<open>The set only grows.\<close>

lemma checked_checkForUpdates:
  "set (deviceIdsCheckedForUpdates (checkForUpdates d dm)) =
     insert (dev_id d) (set (deviceIdsCheckedForUpdates dm))"
  by (auto simp: checkForUpdates_def set_has_def set_add_def)

lemma checked_setCurrentDevice:
  "set (deviceIdsCheckedForUpdates dm) \<subseteq>
     set (deviceIdsCheckedForUpdates (snd (setCurrentDevice deviceId dm)))"
  by (auto simp: setCurrentDevice_def write_currentDevice_def checked_checkForUpdates
        split: option.splits)

lemma checked_addDevice:
  "set (deviceIdsCheckedForUpdates dm) \<subseteq>
     set (deviceIdsCheckedForUpdates (snd (addDevice address newId dm)))"
  using checked_setCurrentDevice
          [of "dm\<lparr>config_devices :=
                   Some (stored_devices dm @ [\<lparr>entry_id = newId, entry_address = address\<rparr>])\<rparr>"
              "Some newId"]
  by (auto simp: addDevice_def Let_def split: prod.splits option.splits)

lemma checked_deleteDevice:
  "set (deviceIdsCheckedForUpdates dm) \<subseteq>
     set (deviceIdsCheckedForUpdates (snd (deleteDevice deviceId dm)))"
proof -
  have "set (deviceIdsCheckedForUpdates dm) \<subseteq>
     set (deviceIdsCheckedForUpdates (snd (setCurrentDevice x (dm\<lparr>config_devices := y\<rparr>))))"
    for x y
    using checked_setCurrentDevice [of "dm\<lparr>config_devices := y\<rparr>" x] by simp
  then show ?thesis
    by (simp add: deleteDevice_def Let_def split: list.splits)
qed

lemma checked_getDevices:
  "set (deviceIdsCheckedForUpdates dm) \<subseteq>
     set (deviceIdsCheckedForUpdates (snd (getDevices outcome dm)))"
  by (cases outcome)
     (auto simp: getDevices_def Let_def refresh_devices_def getCurrentDevice_def
        checked_checkForUpdates split: option.splits prod.splits if_splits)

lemma checked_continuations:
  "deviceIdsCheckedForUpdates (checkForUpdates_cli k cli dm) = deviceIdsCheckedForUpdates dm"
  "deviceIdsCheckedForUpdates (checkForUpdates_version k output dm) = deviceIdsCheckedForUpdates dm"
  "deviceIdsCheckedForUpdates (checkForUpdates_prompt k confirmed dm) = deviceIdsCheckedForUpdates dm"
  by (simp_all add: checkForUpdates_cli_def checkForUpdates_version_def
        checkForUpdates_prompt_def set_check_def split: sum.splits)

lemma checked_step:
  "set (deviceIdsCheckedForUpdates dm) \<subseteq> set (deviceIdsCheckedForUpdates (dm_step e dm))"
  by (cases e)
     (simp_all add: checked_getDevices checked_setCurrentDevice checked_addDevice
        checked_deleteDevice checked_checkForUpdates checked_continuations subset_insertI)

lemma checked_run:
  "set (deviceIdsCheckedForUpdates dm) \<subseteq> set (deviceIdsCheckedForUpdates (dm_run es dm))"
  unfolding dm_run_def
proof (induction es arbitrary: dm)
  case Nil
  show ?case by simp
next
  case (Cons e es)
  from checked_step [of dm e] Cons.IH [of "dm_step e dm"] show ?case by auto
qed

lemma check_inv_after: "check_inv (manager_after stored current events)"
  by (simp add: manager_after_def check_inv_run check_inv_new)

lemma queries_setCurrentDevice:
  "versionQueries (snd (setCurrentDevice deviceId dm)) = versionQueries dm"
  by (simp add: setCurrentDevice_def write_currentDevice_def checkForUpdates_def
        split: option.splits)

lemma queries_step_mono: "queries_for i dm \<le> queries_for i (dm_step e dm)"
proof (cases e)
  case (GetDevices outcome)
  then show ?thesis
    by (cases outcome)
       (auto simp: queries_for_def getDevices_def Let_def refresh_devices_def
          getCurrentDevice_def checkForUpdates_def split: option.splits prod.splits if_splits)
next
  case (SetCurrentDevice deviceId)
  then show ?thesis by (simp add: queries_for_def queries_setCurrentDevice)
next
  case (AddDevice address newId)
  then show ?thesis
    using queries_setCurrentDevice
          [of "Some newId" "dm\<lparr>config_devices :=
                   Some (stored_devices dm @ [\<lparr>entry_id = newId, entry_address = address\<rparr>])\<rparr>"]
    by (auto simp: queries_for_def addDevice_def Let_def split: prod.splits option.splits)
next
  case (DeleteDevice deviceId)
  then show ?thesis
    by (simp add: queries_for_def deleteDevice_def Let_def queries_setCurrentDevice
          split: list.splits)
next
  case (CheckForUpdates d)
  then show ?thesis by (simp add: queries_for_def checkForUpdates_def)
next
  case (CliCreated k cli)
  then show ?thesis by (simp add: queries_for_def checkForUpdates_cli_def set_check_def)
next
  case (VersionOutput k out)
  then show ?thesis
    by (simp add: queries_for_def checkForUpdates_version_def set_check_def split: sum.splits)
next
  case (PromptAnswered k confirmed)
  then show ?thesis by (simp add: queries_for_def checkForUpdates_prompt_def set_check_def)
qed

lemma queries_run_mono: "queries_for i dm \<le> queries_for i (dm_run es dm)"
  unfolding dm_run_def
proof (induction es arbitrary: dm)
  case Nil
  show ?case by simp
next
  case (Cons e es)
  from queries_step_mono [of i dm e] Cons.IH [of "dm_step e dm"] show ?case by simp
qed

lemma two_calls:
  assumes "dev_id d' = dev_id d" and "dev_id d \<notin> set (deviceIdsCheckedForUpdates dm)"
  shows "dm_run [CheckForUpdates d, CheckForUpdates d'] dm = checkForUpdates d dm"
    and "checks (checkForUpdates d dm) = checks dm @ [\<lparr>check_device = d, check_state = AwaitCli\<rparr>]"
    and "versionQueries (checkForUpdates d dm) = versionQueries dm"
    and "checkForUpdates d' (checkForUpdates_cli (length (checks dm)) True (checkForUpdates d dm)) =
           checkForUpdates_cli (length (checks dm)) True (checkForUpdates d dm)"
    and "versionQueries (checkForUpdates_cli (length (checks dm)) True (checkForUpdates d dm)) =
           versionQueries dm @ [d]"
  using assms
  by (simp_all add: dm_run_def checkForUpdates_def checkForUpdates_cli_def set_check_def
        set_has_def set_add_def)

text \<open>
  C6: \<open>checkForUpdates\<close> puts the device id into the set before its first \<open>await\<close>;
  no event ever removes an id from the set; after any sequence of operations and
  resumptions since the construction of the manager, every device id has at most one
  remote version query and at most one prompt. For two invocations with the same,
  not yet checked, device id, only the first is left suspended, and once
  \<open>WendyCLI.create()\<close> has given it a CLI exactly one query has been sent, whether the
  second invocation came before or after that; the number of queries for the id is
  then one and stays one whatever happens later.
\<close>

theorem update_check_once_per_device:
  "dev_id d \<in> set (deviceIdsCheckedForUpdates (checkForUpdates d dm)) \<and>
   set (deviceIdsCheckedForUpdates dm) \<subseteq> set (deviceIdsCheckedForUpdates (dm_run events dm)) \<and>
   queries_for i (manager_after stored current events) \<le> 1 \<and>
   prompts_for i (manager_after stored current events) \<le> 1 \<and>
   (dev_id d' = dev_id d \<and>
    dev_id d \<notin> set (deviceIdsCheckedForUpdates (manager_after stored current events)) \<longrightarrow>
      queries_for (dev_id d) (manager_after stored current events) = 0 \<and>
      checks (dm_run [CheckForUpdates d, CheckForUpdates d'] (manager_after stored current events)) =
        checks (manager_after stored current events) @
          [\<lparr>check_device = d, check_state = AwaitCli\<rparr>] \<and>
      versionQueries
        (dm_run [CheckForUpdates d, CheckForUpdates d',
                 CliCreated (length (checks (manager_after stored current events))) True]
           (manager_after stored current events)) =
        versionQueries (manager_after stored current events) @ [d] \<and>
      versionQueries
        (dm_run [CheckForUpdates d,
                 CliCreated (length (checks (manager_after stored current events))) True,
                 CheckForUpdates d']
           (manager_after stored current events)) =
        versionQueries (manager_after stored current events) @ [d] \<and>
      queries_for (dev_id d)
        (manager_after stored current
           (events @ [CheckForUpdates d, CheckForUpdates d',
                      CliCreated (length (checks (manager_after stored current events))) True]
                   @ later)) = 1)"
proof -
  let ?dm0 = "manager_after stored current events"
  let ?n = "length (checks ?dm0)"
  have inv: "check_inv ?dm0" by (rule check_inv_after)
  have a: "dev_id d \<in> set (deviceIdsCheckedForUpdates (checkForUpdates d dm))"
    by (simp add: checked_checkForUpdates)
  have b: "set (deviceIdsCheckedForUpdates dm) \<subseteq> set (deviceIdsCheckedForUpdates (dm_run events dm))"
    by (rule checked_run)
  have c: "queries_for i ?dm0 \<le> 1" and e: "prompts_for i ?dm0 \<le> 1"
    using inv by (auto simp: check_inv_def dest!: spec [of _ i])
  have f: "queries_for (dev_id d) ?dm0 = 0 \<and>
      checks (dm_run [CheckForUpdates d, CheckForUpdates d'] ?dm0) =
        checks ?dm0 @ [\<lparr>check_device = d, check_state = AwaitCli\<rparr>] \<and>
      versionQueries (dm_run [CheckForUpdates d, CheckForUpdates d', CliCreated ?n True] ?dm0) =
        versionQueries ?dm0 @ [d] \<and>
      versionQueries (dm_run [CheckForUpdates d, CliCreated ?n True, CheckForUpdates d'] ?dm0) =
        versionQueries ?dm0 @ [d] \<and>
      queries_for (dev_id d)
        (manager_after stored current
           (events @ [CheckForUpdates d, CheckForUpdates d', CliCreated ?n True] @ later)) = 1"
    if same: "dev_id d' = dev_id d"
      and new: "dev_id d \<notin> set (deviceIdsCheckedForUpdates ?dm0)"
  proof -
    note tc = two_calls [OF same new]
    from inv new have zero: "queries_for (dev_id d) ?dm0 = 0"
      by (auto simp: check_inv_def dest!: spec [of _ "dev_id d"])
    have run3: "dm_run [CheckForUpdates d, CheckForUpdates d', CliCreated ?n True] ?dm0 =
        checkForUpdates_cli ?n True (checkForUpdates d ?dm0)"
      using tc(1) by (simp add: dm_run_def)
    have run3': "dm_run [CheckForUpdates d, CliCreated ?n True, CheckForUpdates d'] ?dm0 =
        checkForUpdates_cli ?n True (checkForUpdates d ?dm0)"
      using tc(4) by (simp add: dm_run_def)
    let ?all = "events @ [CheckForUpdates d, CheckForUpdates d', CliCreated ?n True] @ later"
    have "manager_after stored current ?all =
        dm_run later
          (dm_run [CheckForUpdates d, CheckForUpdates d', CliCreated ?n True] ?dm0)"
      by (simp only: manager_after_def dm_run_append)
    then have split: "manager_after stored current ?all =
        dm_run later (checkForUpdates_cli ?n True (checkForUpdates d ?dm0))"
      by (simp only: run3)
    have "queries_for (dev_id d) (checkForUpdates_cli ?n True (checkForUpdates d ?dm0)) = 1"
      using zero by (simp add: queries_for_def tc(5))
    with queries_run_mono [of "dev_id d" "checkForUpdates_cli ?n True (checkForUpdates d ?dm0)" later]
    have "1 \<le> queries_for (dev_id d)
             (dm_run later (checkForUpdates_cli ?n True (checkForUpdates d ?dm0)))"
      by simp
    then have "1 \<le> queries_for (dev_id d) (manager_after stored current ?all)"
      by (simp only: split)
    moreover have "queries_for (dev_id d) (manager_after stored current ?all) \<le> 1"
      using check_inv_after [of stored current ?all]
      by (auto simp: check_inv_def dest!: spec [of _ "dev_id d"])
    ultimately have one: "queries_for (dev_id d) (manager_after stored current ?all) = 1"
      by simp
    from zero tc one show ?thesis
      unfolding run3 run3' by simp
  qed
  from a b c e f show ?thesis by blast
qed

theorem update_check_once_per_device_witness:
  "queries_for ''id-porch''
     (manager_after (Some [kitchen]) (Some ''id-kitchen'') [GetDevices DiscoverFailed]) = 0 \<and>
   queries_for ''id-porch''
     (manager_after (Some [kitchen]) (Some ''id-kitchen'')
        ([GetDevices DiscoverFailed] @
         [CheckForUpdates porch, CheckForUpdates porch, CliCreated 1 True] @
         [CheckForUpdates porch, CliCreated 1 True, CliCreated 0 True])) = 1"
proof -
  let ?dm0 = "manager_after (Some [kitchen]) (Some ''id-kitchen'') [GetDevices DiscoverFailed]"
  have new: "dev_id porch \<notin> set (deviceIdsCheckedForUpdates ?dm0)"
    by (simp add: manager_after_def dm_run_def registry_simps porch_def)
  have n: "length (checks ?dm0) = 1"
    by (simp add: manager_after_def dm_run_def registry_simps)
  have i: "dev_id porch = ''id-porch''"
    by (simp add: porch_def)
  from update_check_once_per_device
         [where d = porch and d' = porch and stored = "Some [kitchen]"
            and current = "Some ''id-kitchen''" and events = "[GetDevices DiscoverFailed]"
            and later = "[CheckForUpdates porch, CliCreated 1 True, CliCreated 0 True]"]
       new
  show ?thesis unfolding n i by simp
qed

end
